theory Spec2Isabelle
  imports Main "HOL-Library.AList" "HOL-Library.Sublist"
begin

section \<open>Data model\<close>

text \<open>
  A shallow embedding of the scraping worker of \<^verbatim>\<open>scrape.py\<close> (class
  \<^verbatim>\<open>ScrapingWorker\<close>). A Python \<^verbatim>\<open>str\<close> is a \<^typ>\<open>string\<close>, one
  \<^typ>\<open>char\<close> per element of the Python string. A Python \<^verbatim>\<open>dict\<close> is an
  association list in insertion order; \<^verbatim>\<open>d[k] = v\<close> is \<^const>\<open>AList.update\<close>, which
  replaces the value of a key that is present and appends the pair otherwise.
\<close>

text \<open>Parsed JSON documents (the JSON-LD blocks) are opaque to the worker.\<close>

datatype json = JsonDoc string

text \<open>The values the extractors store under a key of a record.\<close>

datatype field_value =
    VStr string
  | VList "string list"
  | VNone
  | VJson "json list"

type_synonym data_record = "(string \<times> field_value) list"

type_synonym selectors = "(string \<times> string) list"

text \<open>Python truthiness of a stored value, as \<^verbatim>\<open>any(v for v in ...)\<close> reads it.\<close>

fun truthy :: "field_value \<Rightarrow> bool" where
  "truthy (VStr s) = (s \<noteq> [])"
| "truthy (VList xs) = (xs \<noteq> [])"
| "truthy VNone = False"
| "truthy (VJson js) = (js \<noteq> [])"

text \<open>\<^verbatim>\<open>k in d\<close> for a dict \<open>d\<close>.\<close>

definition has_key :: "string \<Rightarrow> (string \<times> 'v) list \<Rightarrow> bool" where
  "has_key k d = (k \<in> set (map fst d))"

text \<open>\<^verbatim>\<open>sub in s\<close> for two strings.\<close>

fun is_substr :: "string \<Rightarrow> string \<Rightarrow> bool" where
  "is_substr sub [] = (sub = [])"
| "is_substr sub (c # cs) = (prefix sub (c # cs) \<or> is_substr sub cs)"

text \<open>\<^verbatim>\<open>a or b\<close> where \<open>a\<close> is a string or \<^verbatim>\<open>None\<close>.\<close>

definition py_or :: "string option \<Rightarrow> string option \<Rightarrow> string option" where
  "py_or a b = (case a of Some s \<Rightarrow> if s \<noteq> [] then a else b | None \<Rightarrow> b)"

definition opt_value :: "string option \<Rightarrow> field_value" where
  "opt_value a = (case a of Some s \<Rightarrow> VStr s | None \<Rightarrow> VNone)"

text \<open>
  A \<^verbatim>\<open>for\<close> loop that assigns and breaks at the first element for which the body
  finds something.
\<close>

fun first_hit :: "('a \<Rightarrow> 'b option) \<Rightarrow> 'a list \<Rightarrow> 'b option" where
  "first_hit f [] = None"
| "first_hit f (x # xs) = (case f x of Some y \<Rightarrow> Some y | None \<Rightarrow> first_hit f xs)"

text \<open>\<^verbatim>\<open>str(i)\<close> for the index of a card field (\<^verbatim>\<open>f'field_{i}'\<close>).\<close>

fun str_of_nat :: "nat \<Rightarrow> string" where
  "str_of_nat n =
     (if n < 10 then [''0123456789'' ! n]
      else str_of_nat (n div 10) @ [''0123456789'' ! (n mod 10)])"

section \<open>The libraries the worker calls\<close>

text \<open>
  The worker is written against BeautifulSoup, \<^verbatim>\<open>re\<close>, \<^verbatim>\<open>urllib\<close>, \<^verbatim>\<open>json\<close>,
  \<^verbatim>\<open>socket\<close>, \<^verbatim>\<open>ipaddress\<close> and \<^verbatim>\<open>requests\<close>. None of them is code of the
  repository: each call is a field of the environment \<open>E\<close> below, and every theorem
  holds for every environment. The type \<open>'e\<close> is that of parsed elements (a
  \<^verbatim>\<open>Tag\<close>, or the \<^verbatim>\<open>BeautifulSoup\<close> object of a whole page).
\<close>

text \<open>The keyword filters of \<^verbatim>\<open>find\<close> and \<^verbatim>\<open>find_all\<close> that the worker uses.\<close>

datatype pattern =
    RePlain string  \<comment> \<open>a regular expression written with plain ASCII and no escape\<close>
  | ReRaquo         \<comment> \<open>the one-character pattern U+00BB\<close>
  | ReRsaquo        \<comment> \<open>the one-character pattern U+203A\<close>
  | PriceSymbol     \<comment> \<open>\<^verbatim>\<open>[\$PE]\s*[\d,]+\.?\d*\<close>, with the pound sign for P and the euro sign for E\<close>
  | PriceUSD        \<comment> \<open>\<^verbatim>\<open>USD\s*[\d,]+\.?\d*\<close>\<close>
  | PriceRs         \<comment> \<open>\<^verbatim>\<open>Rs\.?\s*[\d,]+\.?\d*\<close>\<close>
  | PriceLabel      \<comment> \<open>\<^verbatim>\<open>Price:\s*([\d,]+\.?\d*)\<close>\<close>
  | PriceDecimal    \<comment> \<open>\<^verbatim>\<open>\b\d+\.\d{2}\b\<close>\<close>
  | DateISO         \<comment> \<open>\<^verbatim>\<open>\d{4}-\d{2}-\d{2}\<close>\<close>
  | DateSlash       \<comment> \<open>\<^verbatim>\<open>\d{1,2}/\d{1,2}/\d{4}\<close>\<close>
  | DateMonthDY     \<comment> \<open>\<^verbatim>\<open>\w+ \d{1,2}, \d{4}\<close>\<close>
  | DateDMonthY     \<comment> \<open>\<^verbatim>\<open>\d{1,2} \w+ \d{4}\<close>\<close>
  | CardPrice       \<comment> \<open>\<^verbatim>\<open>\$[\d,]+\.?\d*|P[\d,]+\.?\d*|E[\d,]+\.?\d*\<close>, likewise\<close>
  | CardDate        \<comment> \<open>\<^verbatim>\<open>\d{4}-\d{2}-\d{2}|\d{1,2}/\d{1,2}/\d{4}\<close>\<close>
  | CardPhone       \<comment> \<open>\<^verbatim>\<open>\+?\d{10,}|\(\d{3}\)\<close>\<close>

datatype find_filter =
    AttrTrue string          \<comment> \<open>\<^verbatim>\<open>href=True\<close>, \<^verbatim>\<open>title=True\<close>, \<^verbatim>\<open>class_=True\<close>\<close>
  | AttrIs string string     \<comment> \<open>\<^verbatim>\<open>type='...'\<close>, \<^verbatim>\<open>attrs={'name': '...'}\<close>\<close>
  | ClassRe pattern          \<comment> \<open>\<^verbatim>\<open>class_=re.compile(p)\<close>\<close>
  | StringTrue               \<comment> \<open>\<^verbatim>\<open>string=True\<close>\<close>
  | StringReI pattern        \<comment> \<open>\<^verbatim>\<open>string=re.compile(p, re.IGNORECASE)\<close>\<close>

record 'e env =
  bs_select :: "'e \<Rightarrow> string \<Rightarrow> 'e list"  \<comment> \<open>\<^verbatim>\<open>e.select(css)\<close>\<close>
  bs_find_all :: "'e \<Rightarrow> string list \<Rightarrow> find_filter list \<Rightarrow> 'e list"
    \<comment> \<open>\<^verbatim>\<open>e.find_all(tags, ...)\<close>\<close>
  bs_name :: "'e \<Rightarrow> string"  \<comment> \<open>\<^verbatim>\<open>e.name\<close>\<close>
  bs_get :: "'e \<Rightarrow> string \<Rightarrow> string option"  \<comment> \<open>\<^verbatim>\<open>e.get(attr)\<close>\<close>
  bs_classes :: "'e \<Rightarrow> string list"  \<comment> \<open>\<^verbatim>\<open>e.get('class', [])\<close>\<close>
  bs_text_strip :: "'e \<Rightarrow> string"  \<comment> \<open>\<^verbatim>\<open>e.get_text(strip=True)\<close>\<close>
  bs_text :: "'e \<Rightarrow> string"  \<comment> \<open>\<^verbatim>\<open>e.get_text()\<close>\<close>
  bs_text_sep :: "'e \<Rightarrow> string"  \<comment> \<open>\<^verbatim>\<open>e.get_text(separator=' ', strip=True)\<close>\<close>
  bs_string :: "'e \<Rightarrow> string option"  \<comment> \<open>\<^verbatim>\<open>e.string\<close>\<close>
  bs_str :: "'e \<Rightarrow> string"  \<comment> \<open>\<^verbatim>\<open>str(e)\<close>, the serialized markup\<close>
  re_findall :: "pattern \<Rightarrow> string \<Rightarrow> string list"  \<comment> \<open>\<^verbatim>\<open>re.findall(p, s)\<close>\<close>
  re_search :: "pattern \<Rightarrow> bool \<Rightarrow> string \<Rightarrow> bool"
    \<comment> \<open>\<^verbatim>\<open>re.search(p, s)\<close> is not \<^verbatim>\<open>None\<close>; the flag is \<^verbatim>\<open>re.IGNORECASE\<close>\<close>
  str_lower :: "string \<Rightarrow> string"  \<comment> \<open>\<^verbatim>\<open>s.lower()\<close>\<close>
  str_strip :: "string \<Rightarrow> string"  \<comment> \<open>\<^verbatim>\<open>s.strip()\<close>\<close>
  str_replace :: "string \<Rightarrow> string \<Rightarrow> string \<Rightarrow> string"
    \<comment> \<open>\<^verbatim>\<open>s.replace(old, new)\<close>, as \<open>str_replace E s old new\<close>\<close>
  json_loads :: "string option \<Rightarrow> json option"
    \<comment> \<open>\<^verbatim>\<open>json.loads(x)\<close>; \<open>None\<close> when it raises\<close>
  url_scheme :: "string \<Rightarrow> string"  \<comment> \<open>\<^verbatim>\<open>urlparse(u).scheme\<close>\<close>
  url_netloc :: "string \<Rightarrow> string"  \<comment> \<open>\<^verbatim>\<open>urlparse(u).netloc\<close>\<close>
  netloc_hostname :: "string \<Rightarrow> string option"
    \<comment> \<open>the \<^verbatim>\<open>hostname\<close> property, which \<^verbatim>\<open>urllib\<close> computes from the netloc\<close>
  urljoin :: "string \<Rightarrow> string \<Rightarrow> string"  \<comment> \<open>\<^verbatim>\<open>urljoin(base, href)\<close>\<close>
  robots_can_fetch :: "string \<Rightarrow> string \<Rightarrow> bool option"
    \<comment> \<open>reading the robots file at the first URL and asking \<^verbatim>\<open>can_fetch\<close> for the
        second; \<open>None\<close> when either raises\<close>
  gethostbyname :: "string \<Rightarrow> string option"
    \<comment> \<open>\<^verbatim>\<open>socket.gethostbyname(host)\<close>; \<open>None\<close> when it raises\<close>
  ip_is_private :: "string \<Rightarrow> bool"
  ip_is_loopback :: "string \<Rightarrow> bool"
  ip_is_link_local :: "string \<Rightarrow> bool"
  http_get :: "string \<Rightarrow> 'e option"
    \<comment> \<open>\<^verbatim>\<open>requests.get\<close>, \<^verbatim>\<open>raise_for_status\<close> and the parse of the body; \<open>None\<close>
        when one of them raises (timeout, transport failure, a status that is not 2xx)\<close>

text \<open>\<^verbatim>\<open>find\<close> is the first result of \<^verbatim>\<open>find_all\<close>, \<^verbatim>\<open>select_one\<close> that of \<^verbatim>\<open>select\<close>.\<close>

definition bs_find :: "'e env \<Rightarrow> 'e \<Rightarrow> string list \<Rightarrow> find_filter list \<Rightarrow> 'e option" where
  "bs_find E e tags fs = (case bs_find_all E e tags fs of [] \<Rightarrow> None | x # _ \<Rightarrow> Some x)"

definition bs_select_one :: "'e env \<Rightarrow> 'e \<Rightarrow> string \<Rightarrow> 'e option" where
  "bs_select_one E e css = (case bs_select E e css of [] \<Rightarrow> None | x # _ \<Rightarrow> Some x)"

text \<open>
  \<^verbatim>\<open>e.get(attr, '')\<close>, and \<^verbatim>\<open>e[attr]\<close> where the worker reads it: on an element
  found with \<^verbatim>\<open>attr=True\<close>, or after \<^verbatim>\<open>e.get(attr)\<close> was truthy.
\<close>

definition bs_get_or_empty :: "'e env \<Rightarrow> 'e \<Rightarrow> string \<Rightarrow> string" where
  "bs_get_or_empty E e a = (case bs_get E e a of Some v \<Rightarrow> v | None \<Rightarrow> [])"

text \<open>\<^verbatim>\<open>urlparse(u).hostname\<close>.\<close>

definition url_hostname :: "'e env \<Rightarrow> string \<Rightarrow> string option" where
  "url_hostname E u = netloc_hostname E (url_netloc E u)"

section \<open>Table extraction\<close>

text \<open>\<^verbatim>\<open>extract_table_data\<close>, lines 256 to 288.\<close>

definition table_headers :: "'e env \<Rightarrow> 'e \<Rightarrow> string list" where
  "table_headers E table =
     (case bs_find E table [''thead''] [] of
        Some header_row \<Rightarrow>
          map (bs_text_strip E) (bs_find_all E header_row [''th'', ''td''] [])
      | None \<Rightarrow>
          (case bs_find E table [''tr''] [] of
             Some first_row \<Rightarrow>
               map (bs_text_strip E) (bs_find_all E first_row [''th'', ''td''] [])
           | None \<Rightarrow> []))"

definition table_rows :: "'e env \<Rightarrow> 'e \<Rightarrow> 'e list" where
  "table_rows E table =
     (let tbody = (case bs_find E table [''tbody''] [] of Some t \<Rightarrow> t | None \<Rightarrow> table)
      in bs_find_all E tbody [''tr''] [])"

definition row_data_of :: "'e env \<Rightarrow> string list \<Rightarrow> 'e list \<Rightarrow> data_record" where
  "row_data_of E headers cells =
     fold (\<lambda>(i, header) row_data.
             if i < length cells
             then AList.update header (VStr (bs_text_strip E (cells ! i))) row_data
             else row_data)
          (enumerate 0 headers) []"

definition extract_table_data :: "'e env \<Rightarrow> 'e \<Rightarrow> data_record list" where
  "extract_table_data E table =
     (let headers = table_headers E table in
      if headers = [] then []
      else
        fold (\<lambda>row results.
                let cells = bs_find_all E row [''td'', ''th''] [] in
                if length cells = length headers then
                  (let row_data = row_data_of E headers cells in
                   if row_data \<noteq> [] \<and> list_ex truthy (map snd row_data)
                   then results @ [row_data] else results)
                else results)
             (table_rows E table) [])"

section \<open>Extraction with caller-supplied selectors\<close>

text \<open>
  \<^verbatim>\<open>extract_with_selectors\<close>, lines 678 to 722. \<^verbatim>\<open>list(selectors.keys())[0]\<close>
  raises \<^verbatim>\<open>IndexError\<close> on an empty dict.
\<close>

datatype py_error = IndexError

definition container_record :: "'e env \<Rightarrow> selectors \<Rightarrow> 'e \<Rightarrow> data_record" where
  "container_record E sels container =
     fold (\<lambda>(key, selector) record.
             if key \<noteq> ''container'' then
               (case bs_select_one E container selector of
                  Some element \<Rightarrow> AList.update key (VStr (bs_text_strip E element)) record
                | None \<Rightarrow> record)
             else record)
          sels []"

definition zip_record :: "'e env \<Rightarrow> 'e \<Rightarrow> selectors \<Rightarrow> nat \<Rightarrow> data_record" where
  "zip_record E soup sels i =
     fold (\<lambda>(key, selector) record.
             let elements = bs_select E soup selector in
             if i < length elements
             then AList.update key (VStr (bs_text_strip E (elements ! i))) record
             else record)
          sels []"

definition single_record :: "'e env \<Rightarrow> 'e \<Rightarrow> selectors \<Rightarrow> data_record" where
  "single_record E soup sels =
     fold (\<lambda>(key, selector) record.
             let elements = bs_select E soup selector in
             if elements \<noteq> [] then
               (if length elements = 1
                then AList.update key (VStr (bs_text_strip E (elements ! 0))) record
                else AList.update key (VList (map (bs_text_strip E) elements)) record)
             else record)
          sels []"

definition extract_with_selectors ::
  "'e env \<Rightarrow> 'e \<Rightarrow> selectors \<Rightarrow> py_error + data_record list" where
  "extract_with_selectors E soup sels =
     (case map_of sels ''container'' of
        Some container_selector \<Rightarrow>
          Inr (fold (\<lambda>container results.
                       let record = container_record E sels container in
                       if record \<noteq> [] then results @ [record] else results)
                    (bs_select E soup container_selector) [])
      | None \<Rightarrow>
          (case sels of
             [] \<Rightarrow> Inl IndexError
           | (first_key, first_selector) # _ \<Rightarrow>
               (let first_elements = bs_select E soup first_selector in
                if length first_elements > 1 then
                  Inr (fold (\<lambda>i results.
                               let record = zip_record E soup sels i in
                               if record \<noteq> [] then results @ [record] else results)
                            [0 ..< length first_elements] [])
                else
                  (let record = single_record E soup sels in
                   Inr (if record \<noteq> [] then [record] else [])))))"

section \<open>Pagination discovery\<close>

text \<open>\<^verbatim>\<open>find_pagination_links\<close>, lines 724 to 772.\<close>

definition pagination_selectors :: "string list" where
  "pagination_selectors =
     [''nav.pagination'', ''div.pagination'', ''ul.pagination'',
      ''div.pager'', ''div.page-numbers'', ''div.pages'',
      ''a.next'', ''a.page-link'', ''a[rel=\"next\"]'']"

definition next_patterns :: "pattern list" where
  "next_patterns =
     [RePlain ''next'', RePlain ''siguiente'', RePlain ''suivant'',
      ReRaquo, ReRsaquo, RePlain ''more'']"

definition same_netloc :: "'e env \<Rightarrow> string \<Rightarrow> string \<Rightarrow> bool" where
  "same_netloc E full_url current_url = (url_netloc E full_url = url_netloc E current_url)"

definition pagination_anchors :: "'e env \<Rightarrow> 'e list \<Rightarrow> 'e list" where
  "pagination_anchors E elements =
     fold (\<lambda>elem links.
             if bs_name E elem = ''a'' then links @ [elem]
             else links @ bs_find_all E elem [''a''] [AttrTrue ''href''])
          elements []"

definition collect_links :: "'e env \<Rightarrow> string \<Rightarrow> 'e list \<Rightarrow> string list \<Rightarrow> string list" where
  "collect_links E current_url links pagination_links =
     fold (\<lambda>link acc.
             case bs_get E link ''href'' of
               Some href \<Rightarrow>
                 if href \<noteq> [] then
                   (let full_url = urljoin E current_url href in
                    if same_netloc E full_url current_url then acc @ [full_url] else acc)
                 else acc
             | None \<Rightarrow> acc)
          links pagination_links"

fun pagination_scan ::
  "'e env \<Rightarrow> 'e \<Rightarrow> string \<Rightarrow> string list \<Rightarrow> string list \<Rightarrow> string list" where
  "pagination_scan E soup current_url [] pagination_links = pagination_links"
| "pagination_scan E soup current_url (selector # rest) pagination_links =
     (let elements = bs_select E soup selector in
      if elements \<noteq> [] then
        (let links = pagination_anchors E elements;
             pagination_links' = collect_links E current_url links pagination_links
         in if pagination_links' \<noteq> [] then pagination_links'
            else pagination_scan E soup current_url rest pagination_links')
      else pagination_scan E soup current_url rest pagination_links)"

fun next_scan :: "'e env \<Rightarrow> 'e \<Rightarrow> string \<Rightarrow> pattern list \<Rightarrow> string list" where
  "next_scan E soup current_url [] = []"
| "next_scan E soup current_url (pattern # rest) =
     (case bs_find E soup [''a''] [StringReI pattern] of
        Some next_link \<Rightarrow>
          (case bs_get E next_link ''href'' of
             Some href \<Rightarrow>
               if href \<noteq> [] then
                 (let full_url = urljoin E current_url href in
                  if same_netloc E full_url current_url then [full_url]
                  else next_scan E soup current_url rest)
               else next_scan E soup current_url rest
           | None \<Rightarrow> next_scan E soup current_url rest)
      | None \<Rightarrow> next_scan E soup current_url rest)"

definition find_pagination_links :: "'e env \<Rightarrow> 'e \<Rightarrow> string \<Rightarrow> string list" where
  "find_pagination_links E soup current_url =
     (let pagination_links = pagination_scan E soup current_url pagination_selectors [];
          pagination_links = (if pagination_links = []
                              then next_scan E soup current_url next_patterns
                              else pagination_links)
      in take 5 pagination_links)"

section \<open>Product listings\<close>

text \<open>
  \<^verbatim>\<open>extract_product_listings\<close>, lines 290 to 488. The first part is the path for
  pages of books.toscrape.com, lines 294 to 340.
\<close>

definition books_record :: "'e env \<Rightarrow> 'e \<Rightarrow> data_record" where
  "books_record E product =
     (let data = [];
          data = (case bs_select_one E product ''h3 a'' of
                    Some title_elem \<Rightarrow>
                      AList.update ''title''
                        (opt_value (py_or (bs_get E title_elem ''title'')
                                          (Some (bs_text_strip E title_elem)))) data
                  | None \<Rightarrow> data);
          data = (case bs_select_one E product ''p.price_color'' of
                    Some price_elem \<Rightarrow>
                      AList.update ''price'' (VStr (bs_text_strip E price_elem)) data
                  | None \<Rightarrow> data);
          data = (case bs_select_one E product ''p.star-rating'' of
                    Some rating_elem \<Rightarrow>
                      (case first_hit
                              (\<lambda>cls. if cls \<in> set [''One'', ''Two'', ''Three'', ''Four'', ''Five'']
                                     then Some cls else None)
                              (bs_classes E rating_elem) of
                         Some cls \<Rightarrow> AList.update ''rating'' (VStr cls) data
                       | None \<Rightarrow> data)
                  | None \<Rightarrow> data);
          data = (case bs_select_one E product ''p.instock.availability'' of
                    Some stock_elem \<Rightarrow>
                      AList.update ''availability''
                        (VStr (str_strip E
                                 (str_replace E (bs_text_strip E stock_elem) ''\<newline>'' '' ''))) data
                  | None \<Rightarrow> data);
          data = (case bs_select_one E product ''div.image_container img'' of
                    Some img \<Rightarrow> AList.update ''image'' (VStr (bs_get_or_empty E img ''src'')) data
                  | None \<Rightarrow> data);
          data = (case bs_select_one E product ''h3 a'' of
                    Some link \<Rightarrow> AList.update ''link'' (VStr (bs_get_or_empty E link ''href'')) data
                  | None \<Rightarrow> data)
      in data)"

definition books_results :: "'e env \<Rightarrow> 'e \<Rightarrow> data_record list" where
  "books_results E soup =
     fold (\<lambda>product results.
             let data = books_record E product in
             if data \<noteq> [] then results @ [data] else results)
          (bs_select E soup ''article.product_pod'') []"

text \<open>The generic path, lines 342 to 488.\<close>

definition product_selectors :: "string list" where
  "product_selectors =
     [''article.product_pod'',
      ''div.product'', ''article.product'', ''li.product'',
      ''div.product-item'', ''div.product-card'',
      ''div.item'', ''article.item'', ''li.item'',
      ''div.col-product'', ''div.grid-item'',
      ''article[data-product]'', ''div[data-product-id]'',
      ''li[class*=\"product\"]'', ''div[class*=\"product\"]'',
      ''article[class*=\"product\"]'', ''div.card.product'']"

definition product_candidates :: "'e env \<Rightarrow> 'e \<Rightarrow> 'e list" where
  "product_candidates E soup =
     (let products =
            (case first_hit
                    (\<lambda>selector. let found = bs_select E soup selector in
                                if found \<noteq> [] \<and> length found > 1 then Some found else None)
                    product_selectors of
               Some found \<Rightarrow> found
             | None \<Rightarrow> [])
      in if products = [] then
           (let articles = bs_find_all E soup [''article''] [] in
            if length articles > 2 then articles
            else
              (let list_items = bs_find_all E soup [''li''] [AttrTrue ''class''] in
               take 50 (filter (\<lambda>li. length (bs_text_strip E li) > 30) list_items)))
         else products)"

definition product_title :: "'e env \<Rightarrow> 'e \<Rightarrow> string option" where
  "product_title E product =
     (let title = first_hit (\<lambda>tag. map_option (bs_text_strip E) (bs_find E product [tag] []))
                    [''h1'', ''h2'', ''h3'', ''h4'', ''h5''];
          title = (if title = None \<or> title = Some [] then
                     (case bs_find E product [''a''] [AttrTrue ''title''] of
                        Some link \<Rightarrow> bs_get E link ''title''
                      | None \<Rightarrow> title)
                   else title);
          title = (if title = None \<or> title = Some [] then
                     (case bs_find E product [''a''] [] of
                        Some link \<Rightarrow> Some (bs_text_strip E link)
                      | None \<Rightarrow> title)
                   else title)
      in title)"

definition price_selectors :: "string list" where
  "price_selectors = [''.price'', ''.price_color'', ''.cost'', ''[class*=\"price\"]'', ''[data-price]'']"

definition price_patterns :: "pattern list" where
  "price_patterns = [PriceSymbol, PriceUSD, PriceRs, PriceLabel, PriceDecimal]"

definition desc_selectors :: "string list" where
  "desc_selectors = [''.description'', ''.summary'', ''.excerpt'', ''p'']"

definition stock_selectors :: "string list" where
  "stock_selectors = [''.availability'', ''.stock'', ''.instock'', ''[class*=\"stock\"]'']"

definition product_rating :: "'e env \<Rightarrow> 'e \<Rightarrow> data_record \<Rightarrow> data_record" where
  "product_rating E rating_elem data0 =
     (let data =
            fold (\<lambda>cls data.
                    if is_substr ''five'' (str_lower E cls) \<or> is_substr ''5'' cls
                    then AList.update ''rating'' (VStr ''5 stars'') data
                    else if is_substr ''four'' (str_lower E cls) \<or> is_substr ''4'' cls
                    then AList.update ''rating'' (VStr ''4 stars'') data
                    else if is_substr ''three'' (str_lower E cls) \<or> is_substr ''3'' cls
                    then AList.update ''rating'' (VStr ''3 stars'') data
                    else if is_substr ''two'' (str_lower E cls) \<or> is_substr ''2'' cls
                    then AList.update ''rating'' (VStr ''2 stars'') data
                    else if is_substr ''one'' (str_lower E cls) \<or> is_substr ''1'' cls
                    then AList.update ''rating'' (VStr ''1 star'') data
                    else data)
                 (bs_classes E rating_elem) data0
      in if \<not> has_key ''rating'' data then
           (let rating_text = bs_text_strip E rating_elem in
            if rating_text \<noteq> [] then AList.update ''rating'' (VStr rating_text) data else data)
         else data)"

definition product_record :: "'e env \<Rightarrow> 'e \<Rightarrow> data_record" where
  "product_record E product =
     (let data = [];
          data = (case product_title E product of
                    Some title \<Rightarrow>
                      if title \<noteq> [] \<and> length title > 3
                      then AList.update ''title'' (VStr title) data else data
                  | None \<Rightarrow> data);
          data = (case first_hit
                         (\<lambda>selector.
                            case bs_select_one E product selector of
                              Some price_elem \<Rightarrow>
                                (let price_text = bs_text_strip E price_elem in
                                 if price_text \<noteq> [] then Some price_text else None)
                            | None \<Rightarrow> None)
                         price_selectors of
                    Some price_text \<Rightarrow> AList.update ''price'' (VStr price_text) data
                  | None \<Rightarrow> data);
          data = (if \<not> has_key ''price'' data then
                    (let product_text = bs_text E product in
                     case first_hit
                            (\<lambda>pattern. case re_findall E pattern product_text of
                                          [] \<Rightarrow> None | p # _ \<Rightarrow> Some p)
                            price_patterns of
                       Some p \<Rightarrow> AList.update ''price'' (VStr p) data
                     | None \<Rightarrow> data)
                  else data);
          data = (case first_hit
                         (\<lambda>selector.
                            case bs_select_one E product selector of
                              Some desc_elem \<Rightarrow>
                                (let desc_text = bs_text_strip E desc_elem in
                                 if desc_text \<noteq> [] \<and> length desc_text > 20
                                 then Some (take 200 desc_text) else None)
                            | None \<Rightarrow> None)
                         desc_selectors of
                    Some d \<Rightarrow> AList.update ''description'' (VStr d) data
                  | None \<Rightarrow> data);
          data = (case bs_find E product [''img''] [] of
                    Some img \<Rightarrow>
                      AList.update ''image''
                        (opt_value (py_or (bs_get E img ''src'')
                                      (py_or (bs_get E img ''data-src'')
                                             (bs_get E img ''data-lazy-src'')))) data
                  | None \<Rightarrow> data);
          data = (case bs_find E product [''a''] [AttrTrue ''href''] of
                    Some link \<Rightarrow> AList.update ''link'' (VStr (bs_get_or_empty E link ''href'')) data
                  | None \<Rightarrow> data);
          data = (case bs_select_one E product ''[class*=\"rating\"], [class*=\"star\"]'' of
                    Some rating_elem \<Rightarrow> product_rating E rating_elem data
                  | None \<Rightarrow> data);
          data = (case first_hit
                         (\<lambda>selector. map_option (bs_text_strip E) (bs_select_one E product selector))
                         stock_selectors of
                    Some t \<Rightarrow> AList.update ''availability'' (VStr t) data
                  | None \<Rightarrow> data);
          data = (if \<not> has_key ''availability'' data then
                    (let product_text = str_lower E (bs_text E product) in
                     if is_substr ''in stock'' product_text \<or> is_substr ''available'' product_text
                     then AList.update ''availability'' (VStr ''In Stock'') data
                     else if is_substr ''out of stock'' product_text
                             \<or> is_substr ''unavailable'' product_text
                     then AList.update ''availability'' (VStr ''Out of Stock'') data
                     else data)
                  else data)
      in data)"

definition generic_products :: "'e env \<Rightarrow> 'e \<Rightarrow> data_record list \<Rightarrow> data_record list" where
  "generic_products E soup results0 =
     fold (\<lambda>product results.
             let data = product_record E product in
             if data \<noteq> [] \<and> (has_key ''title'' data \<or> has_key ''price'' data)
             then results @ [data] else results)
          (take 100 (product_candidates E soup)) results0"

definition extract_product_listings :: "'e env \<Rightarrow> 'e \<Rightarrow> data_record list" where
  "extract_product_listings E soup =
     (let results = [] in
      if is_substr ''books.toscrape'' (bs_str E soup) then
        (let results = books_results E soup in
         if results \<noteq> [] then results
         else generic_products E soup results)
      else generic_products E soup results)"

section \<open>Article listings, cards and the general fallback\<close>

text \<open>\<^verbatim>\<open>extract_article_listings\<close>, lines 490 to 561.\<close>

definition article_selectors :: "string list" where
  "article_selectors =
     [''article'', ''div.post'', ''div.article'',
      ''div.blog-post'', ''div.entry'',
      ''section.post'', ''div.content-item'']"

definition date_patterns :: "pattern list" where
  "date_patterns = [DateISO, DateSlash, DateMonthDY, DateDMonthY]"

definition article_record :: "'e env \<Rightarrow> 'e \<Rightarrow> data_record" where
  "article_record E article =
     (let data = [];
          data = (case bs_find E article [''h1'', ''h2'', ''h3'', ''h4''] [] of
                    Some title \<Rightarrow> AList.update ''title'' (VStr (bs_text_strip E title)) data
                  | None \<Rightarrow> data);
          article_text = bs_text E article;
          data = (case first_hit
                         (\<lambda>pattern. case re_findall E pattern article_text of
                                       [] \<Rightarrow> None | d # _ \<Rightarrow> Some d)
                         date_patterns of
                    Some d \<Rightarrow> AList.update ''date'' (VStr d) data
                  | None \<Rightarrow> data);
          author_tags = bs_find_all E article [''span'', ''div'', ''p'']
                          [ClassRe (RePlain ''author|by-line|writer'')];
          data = (case first_hit
                         (\<lambda>tag. let text = bs_text_strip E tag in
                                if text \<noteq> [] \<and> length text < 100
                                then Some (str_replace E (str_replace E text ''By '' []) ''by '' [])
                                else None)
                         author_tags of
                    Some a \<Rightarrow> AList.update ''author'' (VStr a) data
                  | None \<Rightarrow> data);
          summary_tags = bs_find_all E article [''p'', ''div'']
                           [ClassRe (RePlain ''summary|excerpt|description'')];
          data = (if summary_tags \<noteq> [] then
                    AList.update ''summary''
                      (VStr (take 300 (bs_text_strip E (summary_tags ! 0)))) data
                  else
                    (case bs_find E article [''p''] [] of
                       Some p \<Rightarrow> AList.update ''summary'' (VStr (take 300 (bs_text_strip E p))) data
                     | None \<Rightarrow> data));
          data = (case bs_find E article [''a''] [AttrTrue ''href''] of
                    Some link \<Rightarrow> AList.update ''link'' (VStr (bs_get_or_empty E link ''href'')) data
                  | None \<Rightarrow> data);
          category_tags = bs_find_all E article [''span'', ''a'']
                            [ClassRe (RePlain ''category|tag|label'')];
          data = (if category_tags \<noteq> [] then
                    AList.update ''categories''
                      (VList (map (bs_text_strip E) (take 5 category_tags))) data
                  else data)
      in data)"

definition extract_article_listings :: "'e env \<Rightarrow> 'e \<Rightarrow> data_record list" where
  "extract_article_listings E soup =
     (let articles =
            (case first_hit
                    (\<lambda>selector. let found = bs_select E soup selector in
                                if found \<noteq> [] then Some found else None)
                    article_selectors of
               Some found \<Rightarrow> found
             | None \<Rightarrow> [])
      in if articles = [] then []
         else
           fold (\<lambda>article results.
                   let data = article_record E article in
                   if data \<noteq> [] \<and> has_key ''title'' data then results @ [data] else results)
                (take 50 articles) [])"

text \<open>\<^verbatim>\<open>extract_card_data\<close>, lines 563 to 637.\<close>

definition card_selectors :: "string list" where
  "card_selectors =
     [''div.card'', ''div.panel'', ''div.tile'',
      ''div.box'', ''div.module'', ''div.widget'',
      ''div[class*=\"card\"]'', ''div[class*=\"item\"]'',
      ''div[class*=\"col-\"]'']"

definition card_fields :: "'e env \<Rightarrow> 'e \<Rightarrow> string list" where
  "card_fields E card_elem =
     (let text_elements = bs_find_all E card_elem [''p'', ''span'', ''div''] [StringTrue] in
      fold (\<lambda>elem fields.
              let text = bs_text_strip E elem in
              if text \<noteq> [] \<and> length text > 3 \<and> text \<notin> set fields
              then fields @ [text] else fields)
           (take 10 text_elements) [])"

definition card_classify :: "'e env \<Rightarrow> nat \<times> string \<Rightarrow> data_record \<Rightarrow> data_record" where
  "card_classify E = (\<lambda>(i, field) data.
     if re_search E CardPrice False field then AList.update ''price'' (VStr field) data
     else if re_search E CardDate False field then AList.update ''date'' (VStr field) data
     else if re_search E (RePlain ''@|email'') True field
     then AList.update ''email'' (VStr field) data
     else if re_search E CardPhone False field then AList.update ''phone'' (VStr field) data
     else if i = 0 \<and> \<not> has_key ''title'' data then AList.update ''title'' (VStr field) data
     else AList.update (''field_'' @ str_of_nat i) (VStr (take 200 field)) data)"

definition card_record :: "'e env \<Rightarrow> 'e \<Rightarrow> data_record" where
  "card_record E card_elem =
     (let data = [];
          data = (case bs_find E card_elem [''h1'', ''h2'', ''h3'', ''h4'', ''h5'', ''h6'', ''strong'', ''b''] [] of
                    Some title \<Rightarrow> AList.update ''title'' (VStr (bs_text_strip E title)) data
                  | None \<Rightarrow> data);
          fields = card_fields E card_elem;
          data = (if fields \<noteq> [] then fold (card_classify E) (enumerate 0 fields) data
                  else data);
          data = (case bs_find E card_elem [''img''] [] of
                    Some img \<Rightarrow>
                      (case bs_get E img ''src'' of
                         Some src \<Rightarrow> if src \<noteq> [] then AList.update ''image'' (VStr src) data
                                     else data
                       | None \<Rightarrow> data)
                  | None \<Rightarrow> data);
          data = (case bs_find E card_elem [''a''] [AttrTrue ''href''] of
                    Some link \<Rightarrow> AList.update ''link'' (VStr (bs_get_or_empty E link ''href'')) data
                  | None \<Rightarrow> data)
      in data)"

definition extract_card_data :: "'e env \<Rightarrow> 'e \<Rightarrow> data_record list" where
  "extract_card_data E soup =
     (let cards =
            (case first_hit
                    (\<lambda>selector. let found = bs_select E soup selector in
                                if found \<noteq> [] \<and> length found > 2 then Some found else None)
                    card_selectors of
               Some found \<Rightarrow> found
             | None \<Rightarrow> [])
      in if cards = [] then []
         else
           fold (\<lambda>card_elem results.
                   let card_text = bs_text_sep E card_elem in
                   if length card_text < 10 then results
                   else
                     (let data = card_record E card_elem in
                      if data \<noteq> [] then results @ [data] else results))
                (take 100 cards) [])"

text \<open>\<^verbatim>\<open>extract_general_data\<close>, lines 639 to 676.\<close>

definition extract_general_data :: "'e env \<Rightarrow> 'e \<Rightarrow> data_record" where
  "extract_general_data E soup =
     (let result = [];
          result = (case bs_find E soup [''title''] [] of
                      Some title \<Rightarrow> AList.update ''title'' (VStr (bs_text_strip E title)) result
                    | None \<Rightarrow> result);
          result = (case bs_find E soup [''h1''] [] of
                      Some h1 \<Rightarrow> AList.update ''heading'' (VStr (bs_text_strip E h1)) result
                    | None \<Rightarrow> result);
          result = (case bs_find E soup [''meta''] [AttrIs ''name'' ''description''] of
                      Some meta_desc \<Rightarrow>
                        AList.update ''description''
                          (VStr (bs_get_or_empty E meta_desc ''content'')) result
                    | None \<Rightarrow> result);
          all_text = bs_text_sep E soup;
          result = AList.update ''full_text'' (VStr (take 5000 all_text)) result;
          json_ld = bs_find_all E soup [''script''] [AttrIs ''type'' ''application/ld+json''];
          result = (if json_ld \<noteq> [] then
                      (let structured_data =
                             fold (\<lambda>script structured_data.
                                     case json_loads E (bs_string E script) of
                                       Some data \<Rightarrow> structured_data @ [data]
                                     | None \<Rightarrow> structured_data)
                                  json_ld []
                       in if structured_data \<noteq> []
                          then AList.update ''structured_data'' (VJson structured_data) result
                          else result)
                    else result)
      in result)"

section \<open>Automatic extraction\<close>

text \<open>\<^verbatim>\<open>enhanced_auto_extract\<close>, lines 222 to 254.\<close>

definition table_results :: "'e env \<Rightarrow> 'e \<Rightarrow> data_record list" where
  "table_results E soup =
     fold (\<lambda>table results.
             let table_data = extract_table_data E table in
             if table_data \<noteq> [] then results @ table_data else results)
          (bs_find_all E soup [''table''] []) []"

definition enhanced_auto_extract :: "'e env \<Rightarrow> 'e \<Rightarrow> string \<Rightarrow> data_record list" where
  "enhanced_auto_extract E soup current_url =
     (let results = table_results E soup;
          product_results = extract_product_listings E soup;
          results = (if product_results \<noteq> [] then results @ product_results else results);
          article_results = extract_article_listings E soup;
          results = (if article_results \<noteq> [] then results @ article_results else results);
          card_results = extract_card_data E soup;
          results = (if card_results \<noteq> [] then results @ card_results else results)
      in if results = [] then
           (let general_result = extract_general_data E soup in
            if general_result \<noteq> [] then results @ [general_result] else results)
         else results)"

section \<open>The crawl\<close>

text \<open>
  What the worker does to the outside world, in the order it does it: reading a robots
  file, resolving a host name, recording a URL in \<^verbatim>\<open>visited_urls\<close>, issuing the GET
  of a page, and writing the status of a job.
\<close>

datatype event =
    RobotsRead string
  | Resolve string
  | Visited string
  | HttpGet string
  | StatusSet string string

text \<open>\<^verbatim>\<open>check_robots\<close>, lines 774 to 788: allow when the robots file cannot be checked.\<close>

definition check_robots :: "'e env \<Rightarrow> string \<Rightarrow> bool \<times> event list" where
  "check_robots E url =
     (let robots_url = url_scheme E url @ ''://'' @ url_netloc E url @ ''/robots.txt'' in
      (case robots_can_fetch E robots_url url of Some allowed \<Rightarrow> allowed | None \<Rightarrow> True,
       [RobotsRead robots_url]))"

text \<open>\<^verbatim>\<open>is_safe_url\<close>, lines 790 to 810: block when the host cannot be resolved.\<close>

definition is_safe_url :: "'e env \<Rightarrow> string \<Rightarrow> bool \<times> event list" where
  "is_safe_url E url =
     (case url_hostname E url of
        None \<Rightarrow> (False, [])
      | Some hostname \<Rightarrow>
          if hostname = [] then (False, [])
          else
            (case gethostbyname E hostname of
               None \<Rightarrow> (False, [Resolve hostname])
             | Some ip \<Rightarrow>
                 (if ip_is_private E ip \<or> ip_is_loopback E ip \<or> ip_is_link_local E ip
                  then False else True,
                  [Resolve hostname])))"

record crawl_state =
  all_results :: "data_record list"
  visited_urls :: "string set"
  urls_to_visit :: "string list"
  pages_scraped :: int
  trace :: "event list"

text \<open>The extraction of one fetched page, lines 191 to 196.\<close>

definition page_results ::
  "'e env \<Rightarrow> string \<Rightarrow> selectors option \<Rightarrow> 'e \<Rightarrow> string \<Rightarrow> py_error + data_record list" where
  "page_results E mode sels soup current_url =
     (case sels of
        Some ss \<Rightarrow>
          if mode = ''css'' \<and> ss \<noteq> [] then extract_with_selectors E soup ss
          else Inr (enhanced_auto_extract E soup current_url)
      | None \<Rightarrow> Inr (enhanced_auto_extract E soup current_url))"

text \<open>Queueing the discovered links, lines 205 to 208.\<close>

definition enqueue_links :: "string list \<Rightarrow> crawl_state \<Rightarrow> crawl_state" where
  "enqueue_links next_links s0 =
     fold (\<lambda>link s.
             if link \<notin> visited_urls s \<and> link \<notin> set (urls_to_visit s)
             then s\<lparr>urls_to_visit := urls_to_visit s @ [link]\<rparr> else s)
          next_links s0"

text \<open>
  One iteration of the \<^verbatim>\<open>while\<close> loop, lines 179 to 215. Whatever is raised between
  the GET and the end of the body is caught at line 213, and the loop goes on.
\<close>

definition crawl_step ::
  "'e env \<Rightarrow> string \<Rightarrow> selectors option \<Rightarrow> int \<Rightarrow> crawl_state \<Rightarrow> crawl_state" where
  "crawl_step E mode sels max_pages s0 =
     (case urls_to_visit s0 of
        [] \<Rightarrow> s0
      | current_url # rest \<Rightarrow>
          (let s = s0\<lparr>urls_to_visit := rest\<rparr> in
           if current_url \<in> visited_urls s then s
           else
             (let s = s\<lparr>visited_urls := insert current_url (visited_urls s),
                        trace := trace s @ [Visited current_url]\<rparr>;
                  s = s\<lparr>trace := trace s @ [HttpGet current_url]\<rparr>
              in case http_get E current_url of
                   None \<Rightarrow> s
                 | Some soup \<Rightarrow>
                     (case page_results E mode sels soup current_url of
                        Inl err \<Rightarrow> s
                      | Inr results \<Rightarrow>
                          (let s = (if results \<noteq> []
                                    then s\<lparr>all_results := all_results s @ results\<rparr> else s);
                               s = s\<lparr>pages_scraped := pages_scraped s + 1\<rparr>
                           in if pages_scraped s < max_pages
                              then enqueue_links (find_pagination_links E soup current_url) s
                              else s)))))"

function crawl ::
  "'e env \<Rightarrow> string \<Rightarrow> selectors option \<Rightarrow> int \<Rightarrow> crawl_state \<Rightarrow> crawl_state" where
  "crawl E mode sels max_pages s =
     (if urls_to_visit s \<noteq> [] \<and> pages_scraped s < max_pages
      then crawl E mode sels max_pages (crawl_step E mode sels max_pages s)
      else s)"
  by pat_completeness auto
termination
proof (relation "measures [\<lambda>(E, mode, sels, max_pages, s). nat (max_pages - pages_scraped s),
                           \<lambda>(E, mode, sels, max_pages, s). length (urls_to_visit s)]")
  show "wf (measures [\<lambda>(E, mode, sels, max_pages, s). nat (max_pages - pages_scraped s),
                      \<lambda>(E :: 'e env, mode :: string, sels :: selectors option, max_pages, s).
                         length (urls_to_visit s)])"
    by simp
next
  fix E :: "'e env" and mode :: string and sels :: "selectors option"
    and max_pages :: int and s :: crawl_state
  assume run: "urls_to_visit s \<noteq> [] \<and> pages_scraped s < max_pages"
  have enq: "pages_scraped (enqueue_links ls t) = pages_scraped t" for ls t
    unfolding enqueue_links_def by (induction ls arbitrary: t) simp_all
  obtain u rest where u: "urls_to_visit s = u # rest"
    using run by (cases "urls_to_visit s") auto
  have "(pages_scraped (crawl_step E mode sels max_pages s) = pages_scraped s
           \<and> length (urls_to_visit (crawl_step E mode sels max_pages s)) < length (urls_to_visit s))
        \<or> pages_scraped (crawl_step E mode sels max_pages s) = pages_scraped s + 1"
    unfolding crawl_step_def
    by (simp add: u Let_def enq split: option.split sum.split)
  with run
  show "((E, mode, sels, max_pages, crawl_step E mode sels max_pages s),
         (E, mode, sels, max_pages, s))
        \<in> measures [\<lambda>(E, mode, sels, max_pages, s). nat (max_pages - pages_scraped s),
                     \<lambda>(E, mode, sels, max_pages, s). length (urls_to_visit s)]"
    by auto
qed

declare crawl.simps [simp del]

text \<open>The state in which the loop is entered, lines 173 to 176.\<close>

definition init_state :: "string \<Rightarrow> event list \<Rightarrow> crawl_state" where
  "init_state url t =
     \<lparr>all_results = [], visited_urls = {}, urls_to_visit = [url],
      pages_scraped = 0, trace = t\<rparr>"

text \<open>
  \<^verbatim>\<open>scrape_url\<close>, lines 152 to 220. The result is the error message of the exception it
  raises, or the list it returns, together with the events in their order.
\<close>

definition scrape_url ::
  "'e env \<Rightarrow> string \<Rightarrow> string \<Rightarrow> selectors option \<Rightarrow> int \<Rightarrow> int
     \<Rightarrow> (string + data_record list) \<times> event list" where
  "scrape_url E url mode sels crawl_depth max_pages =
     (let (robots_ok, t1) = check_robots E url in
      if \<not> robots_ok
      then (Inl (''Scraping failed: '' @ ''Robots.txt disallows scraping this URL''), t1)
      else
        (let (safe, t2) = is_safe_url E url in
         if \<not> safe
         then (Inl (''Scraping failed: '' @ ''URL points to a private or local IP address''),
               t1 @ t2)
         else
           (let s = crawl E mode sels max_pages (init_state url (t1 @ t2))
            in (Inr (all_results s), trace s))))"

section \<open>The job runner\<close>

text \<open>
  A row of the table \<^verbatim>\<open>jobs\<close> (the columns the worker reads or writes) and the two
  tables the worker touches. The column \<^verbatim>\<open>selectors\<close> holds the JSON text of a dict of
  strings, or NULL.
\<close>

record job =
  job_url :: string
  job_mode :: string
  job_crawl_depth :: "int option"
  job_max_pages :: "int option"
  job_selectors :: "selectors option"
  job_status :: string
  job_error_message :: "string option"

record db =
  jobs :: "(string \<times> job) list"
  results :: "(string \<times> data_record list) list"

definition set_status :: "string \<Rightarrow> string \<Rightarrow> string option \<Rightarrow> db \<Rightarrow> db" where
  "set_status job_id st err d =
     d\<lparr>jobs := map (\<lambda>(i, j). if i = job_id
                               then (i, (case err of
                                           None \<Rightarrow> j\<lparr>job_status := st\<rparr>
                                         | Some m \<Rightarrow> j\<lparr>job_status := st,
                                                       job_error_message := Some m\<rparr>))
                               else (i, j))
                     (jobs d)\<rparr>"

text \<open>\<^verbatim>\<open>job[5] or 0\<close> and \<^verbatim>\<open>job[6] or 1\<close>, lines 123 and 124.\<close>

definition job_depth :: "job \<Rightarrow> int" where
  "job_depth j = (case job_crawl_depth j of None \<Rightarrow> 0 | Some n \<Rightarrow> n)"

definition job_budget :: "job \<Rightarrow> int" where
  "job_budget j = (case job_max_pages j of None \<Rightarrow> 1 | Some n \<Rightarrow> if n = 0 then 1 else n)"

text \<open>\<^verbatim>\<open>process_job\<close>, lines 103 to 150.\<close>

definition process_job :: "'e env \<Rightarrow> db \<Rightarrow> string \<Rightarrow> db \<times> event list" where
  "process_job E d0 job_id =
     (case map_of (jobs d0) job_id of
        None \<Rightarrow> (d0, [])
      | Some j \<Rightarrow>
          (let d = set_status job_id ''running'' None d0;
               url = job_url j;
               mode = job_mode j;
               crawl_depth = job_depth j;
               max_pages = job_budget j;
               sels = job_selectors j;
               (outcome, t) = scrape_url E url mode sels crawl_depth max_pages
           in case outcome of
                Inr rs \<Rightarrow>
                  if rs \<noteq> [] then
                    (set_status job_id ''completed'' None
                       (d\<lparr>results := results d @ [(job_id, rs)]\<rparr>),
                     [StatusSet job_id ''running''] @ t @ [StatusSet job_id ''completed''])
                  else
                    (set_status job_id ''failed'' (Some ''No data extracted'') d,
                     [StatusSet job_id ''running''] @ t @ [StatusSet job_id ''failed''])
              | Inl msg \<Rightarrow>
                  (set_status job_id ''failed'' (Some msg) d,
                   [StatusSet job_id ''running''] @ t @ [StatusSet job_id ''failed''])))"

section \<open>The queue between the API and the worker\<close>

text \<open>
  The body of a request to \<^verbatim>\<open>/api/scrape/create\<close> after the defaults of
  \<^verbatim>\<open>data.get\<close>, lines 966 to 998.
\<close>

record scrape_request =
  req_url :: string
  req_mode :: string
  req_crawl_depth :: "int option"
  req_max_pages :: "int option"
  req_selectors :: "selectors option"

text \<open>
  The database, the job queue of line 81 and the events so far. The queue is in memory:
  it is empty when the server starts, whatever the database holds.
\<close>

record system =
  sys_db :: db
  sys_queue :: "string list"
  sys_events :: "event list"

definition boot :: "db \<Rightarrow> system" where
  "boot d0 = \<lparr>sys_db = d0, sys_queue = [], sys_events = []\<rparr>"

text \<open>
  \<^verbatim>\<open>create_scrape_job\<close>, lines 962 to 1009, with the token \<open>job_id\<close> that
  \<^verbatim>\<open>secrets.token_hex\<close> drew. A request without a URL, or with a URL without scheme or
  netloc, is answered 400; the \<^verbatim>\<open>INSERT\<close> of an id that is in the table violates its
  primary key and is answered 500; in both cases nothing is queued. The new row has
  the default status \<^verbatim>\<open>queued\<close>.
\<close>

definition create_scrape_job :: "'e env \<Rightarrow> string \<Rightarrow> scrape_request \<Rightarrow> system \<Rightarrow> system" where
  "create_scrape_job E job_id req S =
     (if req_url req = [] then S
      else if url_scheme E (req_url req) = [] \<or> url_netloc E (req_url req) = [] then S
      else if has_key job_id (jobs (sys_db S)) then S
      else
        S\<lparr>sys_db := (sys_db S)\<lparr>jobs := jobs (sys_db S) @
                 [(job_id,
                   \<lparr>job_url = req_url req, job_mode = req_mode req,
                    job_crawl_depth = req_crawl_depth req,
                    job_max_pages = req_max_pages req,
                    job_selectors = (case req_selectors req of
                                       Some ss \<Rightarrow> if ss \<noteq> [] then Some ss else None
                                     | None \<Rightarrow> None),
                    job_status = ''queued'', job_error_message = None\<rparr>)]\<rparr>,
          sys_queue := sys_queue S @ [job_id]\<rparr>)"

text \<open>One turn of the loop of \<^verbatim>\<open>run\<close>, lines 91 to 97.\<close>

definition worker_turn :: "'e env \<Rightarrow> system \<Rightarrow> system" where
  "worker_turn E S =
     (case sys_queue S of
        [] \<Rightarrow> S
      | job_id # rest \<Rightarrow>
          (let (d, t) = process_job E (sys_db S) job_id
           in S\<lparr>sys_db := d, sys_queue := rest, sys_events := sys_events S @ t\<rparr>))"

text \<open>
  What happens to the system: a request creates a job, or the worker takes a turn. A
  request touches only the row it inserts and the end of the queue, so it is taken here
  as happening before or after a turn of the worker.
\<close>

datatype action = Submit string scrape_request | Turn

fun act :: "'e env \<Rightarrow> action \<Rightarrow> system \<Rightarrow> system" where
  "act E (Submit job_id req) S = create_scrape_job E job_id req S"
| "act E Turn S = worker_turn E S"

definition run_system :: "'e env \<Rightarrow> action list \<Rightarrow> system \<Rightarrow> system" where
  "run_system E acts S = fold (act E) acts S"

section \<open>Reading the events\<close>

text \<open>The URLs of the page requests of a run, in their order.\<close>

fun fetched :: "event list \<Rightarrow> string list" where
  "fetched [] = []"
| "fetched (HttpGet u # t) = u # fetched t"
| "fetched (e # t) = fetched t"

text \<open>The statuses written to a job, in their order.\<close>

fun status_writes :: "string \<Rightarrow> event list \<Rightarrow> string list" where
  "status_writes job_id [] = []"
| "status_writes job_id (StatusSet i st # t) =
     (if i = job_id then st # status_writes job_id t else status_writes job_id t)"
| "status_writes job_id (e # t) = status_writes job_id t"

text \<open>
  One turn of the \<^verbatim>\<open>while\<close> loop with its test: the states the loop goes through
  from \<open>s\<close> are the iterates of \<open>crawl_iter\<close> on \<open>s\<close>.
\<close>

definition crawl_iter ::
  "'e env \<Rightarrow> string \<Rightarrow> selectors option \<Rightarrow> int \<Rightarrow> crawl_state \<Rightarrow> crawl_state" where
  "crawl_iter E mode sels max_pages s =
     (if urls_to_visit s \<noteq> [] \<and> pages_scraped s < max_pages
      then crawl_step E mode sels max_pages s else s)"

text \<open>What \<^verbatim>\<open>scrape_url\<close> is called with for a job, lines 121 to 128.\<close>

definition run_scrape :: "'e env \<Rightarrow> job \<Rightarrow> (string + data_record list) \<times> event list" where
  "run_scrape E j =
     scrape_url E (job_url j) (job_mode j) (job_selectors j) (job_depth j) (job_budget j)"

section \<open>A concrete environment\<close>

text \<open>
  The model is run on concrete pages through a parser that answers from tables: an
  element carries its name, attributes, classes, text and markup, and the result of
  each \<^verbatim>\<open>select\<close> and \<^verbatim>\<open>find_all\<close> asked of it (a query that is not listed finds
  nothing). The three variants of \<^verbatim>\<open>get_text\<close> return the same text.
\<close>

datatype elem =
  Elem (e_name: string) (e_attrs: "(string \<times> string) list") (e_classes: "string list")
       (e_text: string) (e_markup: string)
       (e_select: "(string \<times> elem list) list")
       (e_find: "((string list \<times> find_filter list) \<times> elem list) list")

definition lookup :: "('a \<times> 'b list) list \<Rightarrow> 'a \<Rightarrow> 'b list" where
  "lookup t q = (case map_of t q of Some r \<Rightarrow> r | None \<Rightarrow> [])"

text \<open>An element with a name and a text, of which nothing is found.\<close>

definition leaf :: "string \<Rightarrow> string \<Rightarrow> elem" where
  "leaf name text = Elem name [] [] text [] [] []"

text \<open>A link with a text and an \<^verbatim>\<open>href\<close>.\<close>

definition anchor :: "string \<Rightarrow> string \<Rightarrow> elem" where
  "anchor text href = Elem ''a'' [(''href'', href)] [] text [] [] []"

text \<open>
  The environment: no regular expression matches, the string methods leave their
  argument unchanged and no JSON-LD block parses. URLs are of the form
  \<^verbatim>\<open>http://host/path\<close>: the netloc is what stands between \<^verbatim>\<open>http://\<close> and the
  next slash, the host name is the netloc, and joining a base with an \<^verbatim>\<open>href\<close> gives
  the \<^verbatim>\<open>href\<close> when it is itself such a URL, and the \<^verbatim>\<open>href\<close> appended to the
  scheme and netloc of the base otherwise (an \<^verbatim>\<open>href\<close> that is an absolute path). The
  robots file cannot be read, every host resolves to \<open>ip\<close>, which is a loopback
  address if \<open>loopback\<close> says so, and \<open>pages\<close> maps the URLs that answer to their
  parsed page.
\<close>

definition http_netloc :: "string \<Rightarrow> string" where
  "http_netloc u =
     (if prefix ''http://'' u then takeWhile (\<lambda>c. c \<noteq> CHR ''/'') (drop 7 u) else [])"

definition http_join :: "string \<Rightarrow> string \<Rightarrow> string" where
  "http_join base href =
     (if prefix ''http://'' href then href else ''http://'' @ http_netloc base @ href)"

definition stub_env :: "string \<Rightarrow> bool \<Rightarrow> (string \<times> elem) list \<Rightarrow> elem env" where
  "stub_env ip loopback pages =
     \<lparr>bs_select = (\<lambda>e css. lookup (e_select e) css),
      bs_find_all = (\<lambda>e tags fs. lookup (e_find e) (tags, fs)),
      bs_name = e_name,
      bs_get = (\<lambda>e a. map_of (e_attrs e) a),
      bs_classes = e_classes,
      bs_text_strip = e_text,
      bs_text = e_text,
      bs_text_sep = e_text,
      bs_string = (\<lambda>e. Some (e_text e)),
      bs_str = e_markup,
      re_findall = (\<lambda>p s. []),
      re_search = (\<lambda>p i s. False),
      str_lower = (\<lambda>s. s),
      str_strip = (\<lambda>s. s),
      str_replace = (\<lambda>s old new. s),
      json_loads = (\<lambda>x. None),
      url_scheme = (\<lambda>u. if prefix ''http://'' u then ''http'' else []),
      url_netloc = http_netloc,
      netloc_hostname = (\<lambda>n. if n = [] then None else Some n),
      urljoin = http_join,
      robots_can_fetch = (\<lambda>robots_url u. None),
      gethostbyname = (\<lambda>h. Some ip),
      ip_is_private = (\<lambda>a. loopback),
      ip_is_loopback = (\<lambda>a. loopback),
      ip_is_link_local = (\<lambda>a. False),
      http_get = map_of pages\<rparr>"

text \<open>
  \<^verbatim>\<open><table><tr><th>Name</th><th>Price</th></tr>
  <tr><td>Pen</td><td>2</td></tr><tr><td>Ink</td><td>5</td></tr></table>\<close>:
  a header row and two data rows, with no \<^verbatim>\<open>thead\<close> and no \<^verbatim>\<open>tbody\<close>.
\<close>

definition row_of :: "string \<Rightarrow> string \<Rightarrow> string \<Rightarrow> elem" where
  "row_of cell_tag a b =
     Elem ''tr'' [] [] (a @ b) [] []
       [(([''th'', ''td''], []), [leaf cell_tag a, leaf cell_tag b]),
        (([''td'', ''th''], []), [leaf cell_tag a, leaf cell_tag b])]"

definition plain_table :: elem where
  "plain_table =
     Elem ''table'' [] [] ''NamePricePen2Ink5'' [] []
       [(([''tr''], []),
         [row_of ''th'' ''Name'' ''Price'', row_of ''td'' ''Pen'' ''2'', row_of ''td'' ''Ink'' ''5''])]"

text \<open>
  The same rows as \<^verbatim>\<open><table><thead><tr>...</tr></thead><tbody><tr>...</tr><tr>...</tr>
  </tbody></table>\<close>.
\<close>

definition sectioned_table :: elem where
  "sectioned_table =
     Elem ''table'' [] [] ''NamePricePen2Ink5'' [] []
       [(([''thead''], []),
         [Elem ''thead'' [] [] ''NamePrice'' [] []
            [(([''th'', ''td''], []), [leaf ''th'' ''Name'', leaf ''th'' ''Price'']),
             (([''tr''], []), [row_of ''th'' ''Name'' ''Price''])]]),
        (([''tbody''], []),
         [Elem ''tbody'' [] [] ''Pen2Ink5'' [] []
            [(([''tr''], []), [row_of ''td'' ''Pen'' ''2'', row_of ''td'' ''Ink'' ''5''])]]),
        (([''tr''], []),
         [row_of ''th'' ''Name'' ''Price'', row_of ''td'' ''Pen'' ''2'', row_of ''td'' ''Ink'' ''5''])]"

text \<open>
  The pages of the selector scenarios. An item is
  \<^verbatim>\<open><div class="item"><h3>title</h3><span class="price">price</span></div>\<close>; a bare
  item is \<^verbatim>\<open><div class="item"></div>\<close>.
\<close>

definition item :: "string \<Rightarrow> string \<Rightarrow> elem" where
  "item title price =
     Elem ''div'' [] [''item''] (title @ price) []
       [(''h3'', [leaf ''h3'' title]), (''.price'', [leaf ''span'' price])] []"

definition bare_item :: elem where
  "bare_item = Elem ''div'' [] [''item''] [] [] [] []"

definition three_items :: elem where
  "three_items =
     Elem ''[document]'' [] [] ''A1B2C3'' []
       [(''.item'', [item ''A'' ''1'', item ''B'' ''2'', item ''C'' ''3'']),
        (''h3'', [leaf ''h3'' ''A'', leaf ''h3'' ''B'', leaf ''h3'' ''C'']),
        (''.price'', [leaf ''span'' ''1'', leaf ''span'' ''2'', leaf ''span'' ''3''])] []"

definition one_bare_item :: elem where
  "one_bare_item = Elem ''[document]'' [] [] [] [] [(''.item'', [bare_item])] []"

definition item_selectors :: selectors where
  "item_selectors = [(''container'', ''.item''), (''title'', ''h3''), (''price'', ''.price'')]"

text \<open>A page with one \<^verbatim>\<open>h3\<close> and two prices, and a page on which nothing matches.\<close>

definition one_title_two_prices :: elem where
  "one_title_two_prices =
     Elem ''[document]'' [] [] ''A12'' []
       [(''h3'', [leaf ''h3'' ''A'']),
        (''.price'', [leaf ''span'' ''1'', leaf ''span'' ''2''])] []"

definition empty_page :: elem where
  "empty_page = Elem ''[document]'' [] [] [] [] [] []"

definition field_selectors :: selectors where
  "field_selectors = [(''title'', ''h3''), (''price'', ''.price'')]"

section \<open>Building a record from the selectors\<close>

text \<open>
  The three loops over \<^verbatim>\<open>selectors.items()\<close> have one shape: each key gets a value or
  is left out.
\<close>

definition collect_fields ::
  "(string \<Rightarrow> string \<Rightarrow> field_value option) \<Rightarrow> selectors \<Rightarrow> data_record \<Rightarrow> data_record" where
  "collect_fields G sels acc =
     fold (\<lambda>(key, selector) record.
             case G key selector of Some v \<Rightarrow> AList.update key v record | None \<Rightarrow> record)
          sels acc"

text \<open>What each of the three loops gives a key.\<close>

definition container_field :: "'e env \<Rightarrow> 'e \<Rightarrow> string \<Rightarrow> string \<Rightarrow> field_value option" where
  "container_field E container key selector =
     (if key = ''container'' then None
      else map_option (\<lambda>element. VStr (bs_text_strip E element))
             (bs_select_one E container selector))"

definition zip_field :: "'e env \<Rightarrow> 'e \<Rightarrow> nat \<Rightarrow> string \<Rightarrow> string \<Rightarrow> field_value option" where
  "zip_field E soup i key selector =
     (let elements = bs_select E soup selector in
      if i < length elements then Some (VStr (bs_text_strip E (elements ! i))) else None)"

definition single_field :: "'e env \<Rightarrow> 'e \<Rightarrow> string \<Rightarrow> string \<Rightarrow> field_value option" where
  "single_field E soup key selector =
     (case bs_select E soup selector of
        [] \<Rightarrow> None
      | [element] \<Rightarrow> Some (VStr (bs_text_strip E element))
      | elements \<Rightarrow> Some (VList (map (bs_text_strip E) elements)))"

text \<open>The environment of the pages that are looked at without any network.\<close>

definition offline_env :: "elem env" where
  "offline_env = stub_env ''203.0.113.7'' False []"

text \<open>
  A page of books.toscrape.com with one product:
  \<^verbatim>\<open><article class="product_pod"><h3><a href="a-book_1/index.html" title="A Book">A
  ...</a></h3><p class="price_color">51.77</p></article>\<close>.
\<close>

definition book_pod :: elem where
  "book_pod =
     Elem ''article'' [] [''product_pod''] ''A ...51.77'' []
       [(''h3 a'',
         [Elem ''a'' [(''href'', ''a-book_1/index.html''), (''title'', ''A Book'')] []
            ''A ...'' [] [] []]),
        (''p.price_color'', [leaf ''p'' ''51.77''])] []"

definition books_page :: elem where
  "books_page =
     Elem ''[document]'' [] [] ''A ...51.77''
       ''<a href=\"http://books.toscrape.com\">Books</a>''
       [(''article.product_pod'', [book_pod])] []"

text \<open>A page that holds the table with \<^verbatim>\<open>thead\<close> and \<^verbatim>\<open>tbody\<close>, and nothing else.\<close>

definition table_page :: elem where
  "table_page =
     Elem ''[document]'' [] [] ''NamePricePen2Ink5'' []
       [] [(([''table''], []), [sectioned_table])]"

text \<open>The page of books.toscrape.com with the sectioned table added to it.\<close>

definition books_table_page :: elem where
  "books_table_page =
     Elem ''[document]'' [] [] ''NamePricePen2Ink5A ...51.77''
       ''<a href=\"http://books.toscrape.com\">Books</a>''
       [(''article.product_pod'', [book_pod])]
       [(([''table''], []), [sectioned_table])]"

text \<open>
  A small site. Its front page links to \<^verbatim>\<open>/page2\<close>, to another host and to
  \<^verbatim>\<open>/page3\<close> with \<^verbatim>\<open><a class="next" href="...">\<close>; the request of \<^verbatim>\<open>/page2\<close>
  fails; \<^verbatim>\<open>/page3\<close> links back to the front page and to \<^verbatim>\<open>/page2\<close>.
\<close>

definition front_page :: elem where
  "front_page =
     Elem ''[document]'' [] [] ''front'' []
       [(''a.next'', [anchor ''next'' ''/page2'', anchor ''partner'' ''http://other.test/x'',
                      anchor ''more'' ''/page3''])] []"

definition third_page :: elem where
  "third_page =
     Elem ''[document]'' [] [] ''third'' []
       [(''a.next'', [anchor ''first'' ''/'', anchor ''previous'' ''/page2''])] []"

definition site_env :: "elem env" where
  "site_env =
     stub_env ''203.0.113.7'' False
       [(''http://shop.test/'', front_page), (''http://shop.test/page3'', third_page)]"

text \<open>The same site seen from a resolver that answers with the loopback address.\<close>

definition loopback_env :: "elem env" where
  "loopback_env = stub_env ''127.0.0.1'' True [(''http://127.0.0.1/admin'', front_page)]"

text \<open>A database with one queued job for \<open>url\<close>, in auto mode with a budget of three pages.\<close>

definition queued_job :: "string \<Rightarrow> job" where
  "queued_job url =
     \<lparr>job_url = url, job_mode = ''auto'', job_crawl_depth = Some 0, job_max_pages = Some 3,
      job_selectors = None, job_status = ''queued'', job_error_message = None\<rparr>"

definition one_job_db :: "string \<Rightarrow> db" where
  "one_job_db url = \<lparr>jobs = [(''job1'', queued_job url)], results = []\<rparr>"

section \<open>Predicates of the proofs\<close>

text \<open>A discovered link: on the host of the page, and the page's URL joined with an \<^verbatim>\<open>href\<close>.\<close>

definition link_ok :: "'e env \<Rightarrow> string \<Rightarrow> string \<Rightarrow> bool" where
  "link_ok E current_url u \<longleftrightarrow>
     url_netloc E u = url_netloc E current_url
     \<and> url_hostname E u = url_hostname E current_url
     \<and> (\<exists>href. href \<noteq> [] \<and> u = urljoin E current_url href)"

text \<open>
  The events of a loop state are in order: no URL is requested twice, every requested
  URL is in \<^verbatim>\<open>visited_urls\<close>, and was recorded there before it was requested.
\<close>

definition trace_ok :: "crawl_state \<Rightarrow> bool" where
  "trace_ok s \<longleftrightarrow>
     distinct (fetched (trace s))
     \<and> set (fetched (trace s)) \<subseteq> visited_urls s
     \<and> (\<forall>i u. i < length (trace s) \<and> trace s ! i = HttpGet u
            \<longrightarrow> Visited u \<in> set (take i (trace s)))"

text \<open>
  Where a job stands, given the statuses written to it and its row: not there, queued
  and untouched, or run once to one of the two final statuses.
\<close>

definition job_stage :: "string list \<Rightarrow> job option \<Rightarrow> bool" where
  "job_stage written row \<longleftrightarrow>
     (written = [] \<and> row = None)
     \<or> (written = [] \<and> map_option job_status row = Some ''queued'')
     \<or> (written = [''running'', ''completed'']
          \<and> map_option job_status row = Some ''completed'')
     \<or> (written = [''running'', ''failed''] \<and> map_option job_status row = Some ''failed'')"

text \<open>The invariant of the system started on the database \<open>d0\<close>.\<close>

definition lifecycle_inv :: "db \<Rightarrow> system \<Rightarrow> bool" where
  "lifecycle_inv d0 S \<longleftrightarrow>
     distinct (sys_queue S)
     \<and> (\<forall>i. has_key i (jobs d0) \<longrightarrow>
            i \<notin> set (sys_queue S)
            \<and> status_writes i (sys_events S) = []
            \<and> map_of (jobs (sys_db S)) i = map_of (jobs d0) i)
     \<and> (\<forall>i. i \<in> set (sys_queue S) \<longrightarrow>
            status_writes i (sys_events S) = []
            \<and> map_option job_status (map_of (jobs (sys_db S)) i) = Some ''queued'')
     \<and> (\<forall>i. \<not> has_key i (jobs d0) \<longrightarrow>
            job_stage (status_writes i (sys_events S)) (map_of (jobs (sys_db S)) i))
     \<and> (\<forall>i. \<not> has_key i (jobs d0) \<and> i \<notin> set (sys_queue S) \<longrightarrow>
            map_option job_status (map_of (jobs (sys_db S)) i) \<noteq> Some ''queued'')"

text \<open>A request for the front page of the small site, and what the worker is given to do.\<close>

definition shop_request :: scrape_request where
  "shop_request =
     \<lparr>req_url = ''http://shop.test/'', req_mode = ''auto'', req_crawl_depth = Some 0,
      req_max_pages = Some 3, req_selectors = None\<rparr>"

definition shop_actions :: "action list" where
  "shop_actions = [Submit ''job2'' shop_request, Turn, Submit ''job2'' shop_request, Turn]"

lemma fold_collect:
  "fold (\<lambda>x acc. if P x then acc @ [f x] else acc) xs init = init @ map f (filter P xs)"
  by (induction xs arbitrary: init) simp_all

lemma fold_extend:
  "fold (\<lambda>x acc. if g x \<noteq> [] then acc @ g x else acc) xs init = init @ concat (map g xs)"
  by (induction xs arbitrary: init) simp_all

lemma map_of_collect_fields:
  "distinct (map fst sels) \<Longrightarrow>
   map_of (collect_fields G sels acc) key =
     (case map_of sels key of
        Some s \<Rightarrow> (case G key s of Some v \<Rightarrow> Some v | None \<Rightarrow> map_of acc key)
      | None \<Rightarrow> map_of acc key)"
proof (induction sels arbitrary: acc)
  case Nil
  then show ?case by (simp add: collect_fields_def)
next
  case (Cons p sels)
  obtain k s where p: "p = (k, s)" by (cases p)
  have d: "distinct (map fst sels)" and k: "k \<notin> fst ` set sels"
    using Cons.prems by (auto simp: p)
  have step: "collect_fields G (p # sels) acc =
        collect_fields G sels (case G k s of Some v \<Rightarrow> AList.update k v acc | None \<Rightarrow> acc)"
    by (simp add: collect_fields_def p)
  have none: "map_of sels k = None"
    using k by (simp add: map_of_eq_None_iff)
  show ?case
    unfolding step Cons.IH[OF d]
    by (auto simp: p none update_conv' split: option.splits)
qed

lemma collect_fields_empty_iff:
  "collect_fields G sels acc = [] \<longleftrightarrow> acc = [] \<and> (\<forall>(k, s) \<in> set sels. G k s = None)"
proof (induction sels arbitrary: acc)
  case Nil
  then show ?case by (simp add: collect_fields_def)
next
  case (Cons p sels)
  obtain k s where p: "p = (k, s)" by (cases p)
  have step: "collect_fields G (p # sels) acc =
        collect_fields G sels (case G k s of Some v \<Rightarrow> AList.update k v acc | None \<Rightarrow> acc)"
    by (simp add: collect_fields_def p)
  show ?case
    unfolding step Cons.IH
    by (auto simp: p split: option.splits)
qed

lemma container_record_collect:
  "container_record E sels c = collect_fields (container_field E c) sels []"
  unfolding container_record_def collect_fields_def container_field_def
  by (rule arg_cong[where f="\<lambda>f. fold f sels []"]) (auto simp: fun_eq_iff split: option.splits)

lemma zip_record_collect:
  "zip_record E soup sels i = collect_fields (zip_field E soup i) sels []"
  unfolding zip_record_def collect_fields_def zip_field_def
  by (rule arg_cong[where f="\<lambda>f. fold f sels []"]) (auto simp: fun_eq_iff Let_def split: option.splits)

lemma single_record_collect:
  "single_record E soup sels = collect_fields (single_field E soup) sels []"
  unfolding single_record_def collect_fields_def single_field_def
  by (rule arg_cong[where f="\<lambda>f. fold f sels []"])
     (auto simp: fun_eq_iff Let_def split: option.splits list.splits)

section \<open>The crawl loop: steps, iterates and the events\<close>

lemma enqueue_links_frame [simp]:
  "trace (enqueue_links ls s) = trace s"
  "visited_urls (enqueue_links ls s) = visited_urls s"
  "pages_scraped (enqueue_links ls s) = pages_scraped s"
  "all_results (enqueue_links ls s) = all_results s"
  unfolding enqueue_links_def by (induction ls arbitrary: s; simp)+

lemma enqueue_links_urls:
  "set (urls_to_visit (enqueue_links ls s)) \<subseteq> set (urls_to_visit s) \<union> set ls"
proof (induction ls arbitrary: s)
  case Nil
  then show ?case by (simp add: enqueue_links_def)
next
  case (Cons a ls)
  let ?s' = "if a \<notin> visited_urls s \<and> a \<notin> set (urls_to_visit s)
             then s\<lparr>urls_to_visit := urls_to_visit s @ [a]\<rparr> else s"
  have step: "enqueue_links (a # ls) s = enqueue_links ls ?s'"
    by (simp add: enqueue_links_def)
  have "set (urls_to_visit ?s') \<subseteq> set (urls_to_visit s) \<union> {a}"
    by auto
  with Cons.IH[of ?s'] show ?case
    unfolding step by auto
qed

lemma fetched_append [simp]: "fetched (a @ b) = fetched a @ fetched b"
  by (induction a rule: fetched.induct) simp_all

lemma crawl_step_trace:
  "urls_to_visit s = u # rest \<Longrightarrow>
   trace (crawl_step E mode sels max_pages s) =
     (if u \<in> visited_urls s then trace s else trace s @ [Visited u, HttpGet u])"
  unfolding crawl_step_def by (simp add: Let_def split: option.split sum.split)

lemma crawl_step_visited_urls:
  "urls_to_visit s = u # rest \<Longrightarrow>
   visited_urls (crawl_step E mode sels max_pages s) = insert u (visited_urls s)"
  unfolding crawl_step_def by (auto simp: Let_def split: option.split sum.split)

lemma crawl_step_pages:
  "pages_scraped (crawl_step E mode sels max_pages s) = pages_scraped s
   \<or> pages_scraped (crawl_step E mode sels max_pages s) = pages_scraped s + 1"
  unfolding crawl_step_def by (simp add: Let_def split: list.split option.split sum.split)

lemma crawl_step_skip:
  "urls_to_visit s = u # rest \<Longrightarrow> u \<notin> visited_urls s \<Longrightarrow> http_get E u = None \<Longrightarrow>
   crawl_step E mode sels max_pages s =
     s\<lparr>urls_to_visit := rest, visited_urls := insert u (visited_urls s),
       trace := trace s @ [Visited u, HttpGet u]\<rparr>"
  unfolding crawl_step_def by (simp add: Let_def)

lemma crawl_is_iterate:
  "\<exists>n. crawl E mode sels max_pages s = (crawl_iter E mode sels max_pages ^^ n) s"
proof (induction E mode sels max_pages s rule: crawl.induct)
  case (1 E mode sels max_pages s)
  show ?case
  proof (cases "urls_to_visit s \<noteq> [] \<and> pages_scraped s < max_pages")
    case True
    then obtain n where
      n: "crawl E mode sels max_pages (crawl_step E mode sels max_pages s)
          = (crawl_iter E mode sels max_pages ^^ n) (crawl_step E mode sels max_pages s)"
      using "1.IH" by blast
    have it: "crawl_iter E mode sels max_pages s = crawl_step E mode sels max_pages s"
      using True by (simp add: crawl_iter_def)
    have "crawl E mode sels max_pages s
          = crawl E mode sels max_pages (crawl_step E mode sels max_pages s)"
      using True by (subst crawl.simps) simp
    also have "\<dots> = (crawl_iter E mode sels max_pages ^^ n) (crawl_iter E mode sels max_pages s)"
      unfolding it by (rule n)
    also have "\<dots> = (crawl_iter E mode sels max_pages ^^ Suc n) s"
      by (simp only: funpow_Suc_right o_apply)
    finally have "crawl E mode sels max_pages s = (crawl_iter E mode sels max_pages ^^ Suc n) s" .
    then show ?thesis by blast
  next
    case False
    then have "crawl E mode sels max_pages s = (crawl_iter E mode sels max_pages ^^ 0) s"
      by (subst crawl.simps) auto
    then show ?thesis by blast
  qed
qed

lemma visited_first_append:
  assumes "\<forall>i u. i < length t \<and> t ! i = HttpGet u \<longrightarrow> Visited u \<in> set (take i t)"
  shows "\<forall>i u. i < length (t @ [Visited v, HttpGet v]) \<and> (t @ [Visited v, HttpGet v]) ! i = HttpGet u
            \<longrightarrow> Visited u \<in> set (take i (t @ [Visited v, HttpGet v]))"
proof (intro allI impI)
  fix i u
  assume a: "i < length (t @ [Visited v, HttpGet v]) \<and> (t @ [Visited v, HttpGet v]) ! i = HttpGet u"
  consider "i < length t" | "i = length t" | "i = Suc (length t)"
    using a by force
  then show "Visited u \<in> set (take i (t @ [Visited v, HttpGet v]))"
  proof cases
    case 1
    then have "t ! i = HttpGet u" using a by (simp add: nth_append)
    then have "Visited u \<in> set (take i t)" using assms 1 by blast
    then show ?thesis using 1 by simp
  next
    case 2
    then show ?thesis using a by (simp add: nth_append)
  next
    case 3
    then show ?thesis using a by (simp add: nth_append)
  qed
qed

lemma trace_ok_step:
  assumes "trace_ok s"
  shows "trace_ok (crawl_iter E mode sels max_pages s)"
proof (cases "urls_to_visit s \<noteq> [] \<and> pages_scraped s < max_pages")
  case False
  then have "crawl_iter E mode sels max_pages s = s"
    by (auto simp: crawl_iter_def)
  then show ?thesis using assms by simp
next
  case True
  then obtain u rest where u: "urls_to_visit s = u # rest"
    by (cases "urls_to_visit s") auto
  have it: "crawl_iter E mode sels max_pages s = crawl_step E mode sels max_pages s"
    using True by (simp add: crawl_iter_def)
  show ?thesis
  proof (cases "u \<in> visited_urls s")
    case True
    then show ?thesis
      using assms unfolding trace_ok_def it crawl_step_trace[OF u] crawl_step_visited_urls[OF u]
      by auto
  next
    case False
    have new: "u \<notin> set (fetched (trace s))"
      using assms False by (auto simp: trace_ok_def)
    have vf: "\<forall>i w. i < length (trace s @ [Visited u, HttpGet u])
                \<and> (trace s @ [Visited u, HttpGet u]) ! i = HttpGet w
            \<longrightarrow> Visited w \<in> set (take i (trace s @ [Visited u, HttpGet u]))"
      using assms by (intro visited_first_append) (simp add: trace_ok_def)
    show ?thesis
      unfolding trace_ok_def it crawl_step_trace[OF u] crawl_step_visited_urls[OF u]
      using False new assms vf by (auto simp: trace_ok_def)
  qed
qed

lemma trace_ok_iterate:
  "trace_ok s \<Longrightarrow> trace_ok ((crawl_iter E mode sels max_pages ^^ n) s)"
  by (induction n) (simp_all add: trace_ok_step)

lemma pages_step:
  assumes "pages_scraped s \<le> max_pages"
  shows "pages_scraped (crawl_iter E mode sels max_pages s) \<le> max_pages"
proof (cases "urls_to_visit s \<noteq> [] \<and> pages_scraped s < max_pages")
  case True
  then have "crawl_iter E mode sels max_pages s = crawl_step E mode sels max_pages s"
    by (simp add: crawl_iter_def)
  then show ?thesis
    using True crawl_step_pages[of E mode sels max_pages s] by auto
next
  case False
  then have "crawl_iter E mode sels max_pages s = s"
    by (auto simp: crawl_iter_def)
  then show ?thesis using assms by simp
qed

lemma pages_iterate:
  "pages_scraped s \<le> max_pages \<Longrightarrow>
   pages_scraped ((crawl_iter E mode sels max_pages ^^ n) s) \<le> max_pages"
  by (induction n) (simp_all add: pages_step)

lemma enqueue_links_mem:
  "u \<in> set (urls_to_visit (enqueue_links ls s)) \<Longrightarrow> u \<in> set (urls_to_visit s) \<or> u \<in> set ls"
  using enqueue_links_urls[of ls s] by auto

lemma crawl_step_urls:
  assumes "urls_to_visit s = cur # rest"
      and "u \<in> set (urls_to_visit (crawl_step E mode sels max_pages s))"
  shows "u \<in> set rest \<or> (\<exists>soup. u \<in> set (find_pagination_links E soup cur))"
proof (cases "cur \<in> visited_urls s")
  case True
  then show ?thesis using assms by (simp add: crawl_step_def)
next
  case False
  show ?thesis
  proof (cases "http_get E cur")
    case None
    then show ?thesis using assms False by (simp add: crawl_step_def)
  next
    case (Some soup)
    show ?thesis
    proof (cases "page_results E mode sels soup cur")
      case (Inl err)
      then show ?thesis using assms False Some by (simp add: crawl_step_def)
    next
      case (Inr results)
      have "u \<in> set rest \<union> set (find_pagination_links E soup cur)"
        using assms False Some Inr
        by (auto simp: crawl_step_def Let_def split: if_splits dest!: enqueue_links_mem)
      then show ?thesis by blast
    qed
  qed
qed

lemma status_writes_append [simp]:
  "status_writes i (a @ b) = status_writes i a @ status_writes i b"
  by (induction i a rule: status_writes.induct) simp_all

lemma gate_events [simp]:
  "fetched (snd (check_robots E url)) = []"
  "fetched (snd (is_safe_url E url)) = []"
  "status_writes i (snd (check_robots E url)) = []"
  "status_writes i (snd (is_safe_url E url)) = []"
  by (simp_all add: check_robots_def is_safe_url_def Let_def split: option.split)

lemma scrape_url_open:
  assumes "fst (check_robots E url)" and "fst (is_safe_url E url)"
  shows "scrape_url E url mode sels crawl_depth max_pages =
           (Inr (all_results (crawl E mode sels max_pages
                    (init_state url (snd (check_robots E url) @ snd (is_safe_url E url))))),
            trace (crawl E mode sels max_pages
                    (init_state url (snd (check_robots E url) @ snd (is_safe_url E url)))))"
  using assms unfolding scrape_url_def by (simp add: case_prod_unfold Let_def)

lemma scrape_url_denied:
  assumes "\<not> (fst (check_robots E url) \<and> fst (is_safe_url E url))"
  shows "\<exists>msg. fst (scrape_url E url mode sels crawl_depth max_pages) = Inl msg"
    and "fetched (snd (scrape_url E url mode sels crawl_depth max_pages)) = []"
    and "status_writes i (snd (scrape_url E url mode sels crawl_depth max_pages)) = []"
  using assms unfolding scrape_url_def by (auto simp: case_prod_unfold Let_def)

lemma crawl_step_last_page:
  assumes "urls_to_visit s = u # rest" and "max_pages \<le> pages_scraped s + 1"
  shows "urls_to_visit (crawl_step E mode sels max_pages s) = rest"
  unfolding crawl_step_def using assms
  by (simp add: Let_def split: option.split sum.split)

lemma crawl_budget_one:
  "fetched (trace (crawl E mode sels 1 (init_state url t0))) = fetched t0 @ [url]"
proof -
  let ?s0 = "init_state url t0"
  let ?s1 = "crawl_step E mode sels 1 ?s0"
  have u: "urls_to_visit ?s0 = url # []" by (simp add: init_state_def)
  have "urls_to_visit ?s1 = []"
    by (rule crawl_step_last_page[OF u]) (simp add: init_state_def)
  then have stop: "crawl E mode sels 1 ?s1 = ?s1"
    by (subst crawl.simps) simp
  have "crawl E mode sels 1 ?s0 = crawl E mode sels 1 ?s1"
    by (subst crawl.simps) (simp add: init_state_def)
  then have "crawl E mode sels 1 ?s0 = ?s1" using stop by simp
  then show ?thesis
    by (simp add: crawl_step_trace[OF u]) (simp add: init_state_def)
qed

lemma fetched_Nil_no_get: "fetched t = [] \<Longrightarrow> i < length t \<Longrightarrow> t ! i \<noteq> HttpGet u"
  by (induction t arbitrary: i rule: fetched.induct) (auto simp: nth_Cons' split: if_splits)

lemma trace_ok_init: "fetched t0 = [] \<Longrightarrow> trace_ok (init_state url t0)"
  unfolding trace_ok_def init_state_def using fetched_Nil_no_get by auto


section \<open>Running the model on the small site\<close>

lemmas stub_simps =
  stub_env_def lookup_def leaf_def anchor_def http_netloc_def http_join_def
  bs_find_def bs_select_one_def

lemma quiet_page_auto:
  assumes "e_select p = [(''a.next'', ls)]" and "e_find p = []"
  shows "enhanced_auto_extract (stub_env ip lb pages) p u = [[(''full_text'', VStr (take 5000 (e_text p)))]]"
proof -
  let ?E = "stub_env ip lb pages"
  have sel: "bs_select ?E p css = (if css = ''a.next'' then ls else [])" for css
    by (simp add: stub_env_def lookup_def assms)
  have fnd: "bs_find_all ?E p tags fs = []" for tags fs
    by (simp add: stub_env_def lookup_def assms)
  have tx: "bs_text_sep ?E p = e_text p" and str: "bs_str ?E p = e_markup p"
    by (simp_all add: stub_env_def)
  have t: "table_results ?E p = []"
    by (simp add: table_results_def fnd)
  have pr: "extract_product_listings ?E p = []"
    by (simp add: extract_product_listings_def books_results_def generic_products_def
          product_candidates_def product_selectors_def sel fnd)
  have a: "extract_article_listings ?E p = []"
    by (simp add: extract_article_listings_def article_selectors_def sel)
  have c: "extract_card_data ?E p = []"
    by (simp add: extract_card_data_def card_selectors_def sel)
  have g: "extract_general_data ?E p = [(''full_text'', VStr (take 5000 (e_text p)))]"
    by (simp add: extract_general_data_def bs_find_def fnd tx)
  show ?thesis
    by (simp add: enhanced_auto_extract_def t pr a c g)
qed

lemma front_links:
  "find_pagination_links site_env front_page ''http://shop.test/''
     = [''http://shop.test/page2'', ''http://shop.test/page3'']"
  by (simp add: find_pagination_links_def pagination_selectors_def pagination_anchors_def
        collect_links_def same_netloc_def site_env_def front_page_def stub_simps)

lemma third_links:
  "find_pagination_links site_env third_page ''http://shop.test/page3''
     = [''http://shop.test/'', ''http://shop.test/page2'']"
  by (simp add: find_pagination_links_def pagination_selectors_def pagination_anchors_def
        collect_links_def same_netloc_def site_env_def third_page_def stub_simps)


lemma crawl_step_ok:
  assumes "urls_to_visit s = u # rest" and "u \<notin> visited_urls s"
      and "http_get E u = Some soup" and "page_results E mode sels soup u = Inr rs"
  shows "crawl_step E mode sels max_pages s =
           (let s1 = s\<lparr>urls_to_visit := rest, visited_urls := insert u (visited_urls s),
                        trace := trace s @ [Visited u, HttpGet u],
                        all_results := all_results s @ rs,
                        pages_scraped := pages_scraped s + 1\<rparr>
            in if pages_scraped s + 1 < max_pages
               then enqueue_links (find_pagination_links E soup u) s1 else s1)"
  unfolding crawl_step_def using assms by (simp add: Let_def)

lemma site_get:
  "http_get site_env u =
     map_of [(''http://shop.test/'', front_page), (''http://shop.test/page3'', third_page)] u"
  by (simp add: site_env_def stub_env_def)

lemma site_auto:
  "page_results site_env ''auto'' None front_page u = Inr [[(''full_text'', VStr ''front'')]]"
  "page_results site_env ''auto'' None third_page u = Inr [[(''full_text'', VStr ''third'')]]"
  unfolding page_results_def site_env_def
  by (simp_all add: quiet_page_auto front_page_def third_page_def)

lemma site_crawl:
  "crawl site_env ''auto'' None 3 (init_state ''http://shop.test/'' t) =
     \<lparr>all_results = [[(''full_text'', VStr ''front'')], [(''full_text'', VStr ''third'')]],
      visited_urls = {''http://shop.test/page3'', ''http://shop.test/page2'', ''http://shop.test/''},
      urls_to_visit = [],
      pages_scraped = 2,
      trace = t @ [Visited ''http://shop.test/'', HttpGet ''http://shop.test/'',
                   Visited ''http://shop.test/page2'', HttpGet ''http://shop.test/page2'',
                   Visited ''http://shop.test/page3'', HttpGet ''http://shop.test/page3'']\<rparr>"
proof -
  let ?s0 = "init_state ''http://shop.test/'' t"
  let ?s1 = "\<lparr>all_results = [[(''full_text'', VStr ''front'')]],
      visited_urls = {''http://shop.test/''},
      urls_to_visit = [''http://shop.test/page2'', ''http://shop.test/page3''],
      pages_scraped = 1,
      trace = t @ [Visited ''http://shop.test/'', HttpGet ''http://shop.test/'']\<rparr>"
  let ?s2 = "\<lparr>all_results = [[(''full_text'', VStr ''front'')]],
      visited_urls = {''http://shop.test/page2'', ''http://shop.test/''},
      urls_to_visit = [''http://shop.test/page3''],
      pages_scraped = 1,
      trace = t @ [Visited ''http://shop.test/'', HttpGet ''http://shop.test/'',
                   Visited ''http://shop.test/page2'', HttpGet ''http://shop.test/page2'']\<rparr>"
  let ?s3 = "\<lparr>all_results = [[(''full_text'', VStr ''front'')], [(''full_text'', VStr ''third'')]],
      visited_urls = {''http://shop.test/page3'', ''http://shop.test/page2'', ''http://shop.test/''},
      urls_to_visit = [],
      pages_scraped = 2,
      trace = t @ [Visited ''http://shop.test/'', HttpGet ''http://shop.test/'',
                   Visited ''http://shop.test/page2'', HttpGet ''http://shop.test/page2'',
                   Visited ''http://shop.test/page3'', HttpGet ''http://shop.test/page3'']\<rparr>"
  have g: "http_get site_env ''http://shop.test/'' = Some front_page"
    "http_get site_env ''http://shop.test/page2'' = None"
    "http_get site_env ''http://shop.test/page3'' = Some third_page"
    by (simp_all add: site_get)
  have 1: "crawl_step site_env ''auto'' None 3 ?s0 = ?s1"
    using crawl_step_ok[of ?s0 "''http://shop.test/''" "[]" site_env front_page "''auto''" None
        "[[(''full_text'', VStr ''front'')]]" 3]
    by (simp add: init_state_def g site_auto front_links enqueue_links_def)
  have 2: "crawl_step site_env ''auto'' None 3 ?s1 = ?s2"
    using crawl_step_skip[of ?s1 "''http://shop.test/page2''" "[''http://shop.test/page3'']"
        site_env "''auto''" None 3]
    by (simp add: g)
  have 3: "crawl_step site_env ''auto'' None 3 ?s2 = ?s3"
    using crawl_step_ok[of ?s2 "''http://shop.test/page3''" "[]" site_env third_page "''auto''" None
        "[[(''full_text'', VStr ''third'')]]" 3]
    by (simp add: g site_auto third_links enqueue_links_def)
  have "crawl site_env ''auto'' None 3 ?s0 = crawl site_env ''auto'' None 3 ?s1"
    by (subst crawl.simps) (simp add: 1, simp add: init_state_def)
  also have "\<dots> = crawl site_env ''auto'' None 3 ?s2"
    by (subst crawl.simps) (simp add: 2)
  also have "\<dots> = crawl site_env ''auto'' None 3 ?s3"
    by (subst crawl.simps) (simp add: 3)
  also have "\<dots> = ?s3"
    by (subst crawl.simps) simp
  finally show ?thesis .
qed

lemma site_gate:
  "check_robots site_env ''http://shop.test/'' = (True, [RobotsRead ''http://shop.test/robots.txt''])"
  "is_safe_url site_env ''http://shop.test/'' = (True, [Resolve ''shop.test''])"
  by (simp_all add: check_robots_def is_safe_url_def url_hostname_def site_env_def stub_env_def
        http_netloc_def)


section \<open>The job runner and the two checks of the seed\<close>

lemma map_of_map_row:
  "map_of (map (\<lambda>(i, j). if i = k then (i, f j) else (i, j)) xs) x
     = (if x = k then map_option f (map_of xs k) else map_of xs x)"
  by (induction xs) auto

lemma set_status_lookup:
  "map_of (jobs (set_status job_id st err d)) x =
     (if x = job_id
      then map_option (\<lambda>j. case err of
                              None \<Rightarrow> j\<lparr>job_status := st\<rparr>
                            | Some m \<Rightarrow> j\<lparr>job_status := st, job_error_message := Some m\<rparr>)
             (map_of (jobs d) job_id)
      else map_of (jobs d) x)"
  unfolding set_status_def by (simp add: map_of_map_row)

lemma set_status_results [simp]: "results (set_status job_id st err d) = results d"
  by (simp add: set_status_def)

lemma status_writes_crawl_step:
  "status_writes i (trace (crawl_step E mode sels max_pages s)) = status_writes i (trace s)"
proof (cases "urls_to_visit s")
  case Nil
  then show ?thesis by (simp add: crawl_step_def)
next
  case (Cons u rest)
  then show ?thesis by (simp add: crawl_step_trace)
qed

lemma status_writes_crawl:
  "status_writes i (trace (crawl E mode sels max_pages s)) = status_writes i (trace s)"
proof (induction E mode sels max_pages s rule: crawl.induct)
  case (1 E mode sels max_pages s)
  show ?case
  proof (cases "urls_to_visit s \<noteq> [] \<and> pages_scraped s < max_pages")
    case True
    then have "crawl E mode sels max_pages s
               = crawl E mode sels max_pages (crawl_step E mode sels max_pages s)"
      by (subst crawl.simps) simp
    then show ?thesis
      using "1.IH"[OF True] by (simp add: status_writes_crawl_step)
  next
    case False
    then have "crawl E mode sels max_pages s = s"
      by (subst crawl.simps) auto
    then show ?thesis by simp
  qed
qed

lemma status_writes_scrape_url:
  "status_writes i (snd (scrape_url E url mode sels crawl_depth max_pages)) = []"
proof (cases "fst (check_robots E url) \<and> fst (is_safe_url E url)")
  case True
  then show ?thesis
    by (simp add: scrape_url_open status_writes_crawl init_state_def)
next
  case False
  then show ?thesis by (rule scrape_url_denied(3))
qed

lemma process_job_found:
  assumes "map_of (jobs d) job_id = Some j"
  shows "process_job E d job_id =
           (case fst (run_scrape E j) of
              Inr rs \<Rightarrow>
                if rs \<noteq> [] then
                  (set_status job_id ''completed'' None
                     ((set_status job_id ''running'' None d)
                        \<lparr>results := results (set_status job_id ''running'' None d)
                                      @ [(job_id, rs)]\<rparr>),
                   [StatusSet job_id ''running''] @ snd (run_scrape E j)
                     @ [StatusSet job_id ''completed''])
                else
                  (set_status job_id ''failed'' (Some ''No data extracted'')
                     (set_status job_id ''running'' None d),
                   [StatusSet job_id ''running''] @ snd (run_scrape E j)
                     @ [StatusSet job_id ''failed''])
            | Inl msg \<Rightarrow>
                (set_status job_id ''failed'' (Some msg) (set_status job_id ''running'' None d),
                 [StatusSet job_id ''running''] @ snd (run_scrape E j)
                   @ [StatusSet job_id ''failed'']))"
  unfolding process_job_def run_scrape_def using assms
  by (simp add: Let_def case_prod_unfold)

lemma jobs_results_update [simp]: "jobs (d\<lparr>results := r\<rparr>) = jobs d"
  by simp

lemma set_status_jobs_results:
  "map_of (jobs (set_status job_id st err (d\<lparr>results := r\<rparr>))) x
     = map_of (jobs (set_status job_id st err d)) x"
  by (simp add: set_status_lookup)


lemma crawl_skip:
  assumes "urls_to_visit s = u # rest" and "u \<notin> visited_urls s"
      and "pages_scraped s < max_pages" and "http_get E u = None"
  shows "crawl E mode sels max_pages s =
           crawl E mode sels max_pages
             (s\<lparr>urls_to_visit := rest, visited_urls := insert u (visited_urls s),
                trace := trace s @ [Visited u, HttpGet u]\<rparr>)"
  using assms by (subst crawl.simps) (simp add: crawl_step_skip)

lemma crawl_seed_failed:
  assumes "http_get E url = None"
  shows "all_results (crawl E mode sels max_pages (init_state url t)) = []"
    and "fetched (trace (crawl E mode sels max_pages (init_state url t)))
           = fetched t @ (if 0 < max_pages then [url] else [])"
proof -
  let ?s0 = "init_state url t"
  let ?s1 = "?s0\<lparr>urls_to_visit := [], visited_urls := insert url (visited_urls ?s0),
                   trace := trace ?s0 @ [Visited url, HttpGet url]\<rparr>"
  have stop: "crawl E mode sels max_pages ?s1 = ?s1"
    by (subst crawl.simps) simp
  have run: "crawl E mode sels max_pages ?s0 = (if 0 < max_pages then ?s1 else ?s0)"
  proof (cases "0 < max_pages")
    case True
    then have "crawl E mode sels max_pages ?s0 = crawl E mode sels max_pages ?s1"
      using assms by (intro crawl_skip) (simp_all add: init_state_def)
    then show ?thesis using True stop by simp
  next
    case False
    then have "crawl E mode sels max_pages ?s0 = ?s0"
      by (subst crawl.simps) (simp add: init_state_def)
    then show ?thesis using False by simp
  qed
  show "all_results (crawl E mode sels max_pages (init_state url t)) = []"
    unfolding run by (simp add: init_state_def)
  show "fetched (trace (crawl E mode sels max_pages (init_state url t)))
           = fetched t @ (if 0 < max_pages then [url] else [])"
    unfolding run by (simp add: init_state_def)
qed


lemma unsafe_seed_denied:
  assumes host: "url_hostname E url = Some hostname" "hostname \<noteq> []"
      and ip: "gethostbyname E hostname = Some ip"
      and unsafe: "ip_is_private E ip \<or> ip_is_loopback E ip \<or> ip_is_link_local E ip"
  shows "\<exists>msg. fst (scrape_url E url mode sels crawl_depth max_pages) = Inl msg"
    and "fetched (snd (scrape_url E url mode sels crawl_depth max_pages)) = []"
    and "hd (snd (scrape_url E url mode sels crawl_depth max_pages))
           = RobotsRead (url_scheme E url @ ''://'' @ url_netloc E url @ ''/robots.txt'')"
proof -
  have no: "\<not> fst (is_safe_url E url)"
    using assms by (auto simp: is_safe_url_def)
  then show "\<exists>msg. fst (scrape_url E url mode sels crawl_depth max_pages) = Inl msg"
    and "fetched (snd (scrape_url E url mode sels crawl_depth max_pages)) = []"
    by (simp_all add: scrape_url_denied)
  show "hd (snd (scrape_url E url mode sels crawl_depth max_pages))
           = RobotsRead (url_scheme E url @ ''://'' @ url_netloc E url @ ''/robots.txt'')"
    using no unfolding scrape_url_def
    by (simp add: case_prod_unfold Let_def check_robots_def)
qed

lemma site_gate_page2:
  "check_robots site_env ''http://shop.test/page2''
     = (True, [RobotsRead ''http://shop.test/robots.txt''])"
  "is_safe_url site_env ''http://shop.test/page2'' = (True, [Resolve ''shop.test''])"
  by (simp_all add: check_robots_def is_safe_url_def url_hostname_def site_env_def stub_env_def
        http_netloc_def)

lemma site_scrape:
  "fst (scrape_url site_env ''http://shop.test/'' ''auto'' None 0 3)
     = Inr [[(''full_text'', VStr ''front'')], [(''full_text'', VStr ''third'')]]"
  by (simp add: scrape_url_open site_gate site_crawl)


lemma process_job_status:
  assumes found: "map_of (jobs d) job_id = Some j"
      and queued: "job_status j = ''queued''"
  shows "(job_status j # status_writes job_id (snd (process_job E d job_id))
            = [''queued'', ''running'', ''completed'']
          \<or> job_status j # status_writes job_id (snd (process_job E d job_id))
            = [''queued'', ''running'', ''failed''])
       \<and> map_option job_status (map_of (jobs (fst (process_job E d job_id))) job_id)
           = Some (last (status_writes job_id (snd (process_job E d job_id))))
       \<and> (last (status_writes job_id (snd (process_job E d job_id))) = ''completed''
            \<longleftrightarrow> (\<exists>rs. fst (run_scrape E j) = Inr rs \<and> rs \<noteq> []))
       \<and> (fst (run_scrape E j) = Inr []
            \<longrightarrow> last (status_writes job_id (snd (process_job E d job_id))) = ''failed''
              \<and> map_option job_error_message
                    (map_of (jobs (fst (process_job E d job_id))) job_id)
                  = Some (Some ''No data extracted''))"
proof -
  have quiet: "status_writes job_id (snd (run_scrape E j)) = []"
    by (simp add: run_scrape_def status_writes_scrape_url)
  show ?thesis
  proof (cases "fst (run_scrape E j)")
    case (Inl msg)
    then show ?thesis
      using found queued
      by (simp add: process_job_found quiet set_status_lookup)
  next
    case (Inr rs)
    then show ?thesis
      using found queued
      by (cases "rs = []")
         (simp_all add: process_job_found quiet set_status_lookup)
  qed
qed


section \<open>The life of a job in the running system\<close>

lemma has_key_map_of: "has_key i xs \<longleftrightarrow> map_of xs i \<noteq> None"
  by (simp add: has_key_def map_of_eq_None_iff)

lemma process_job_effect:
  assumes found: "map_of (jobs d) i = Some j"
  shows "\<exists>st. (st = ''completed'' \<or> st = ''failed'')
          \<and> (\<forall>k. status_writes k (snd (process_job E d i))
                    = (if k = i then [''running'', st] else []))
          \<and> map_option job_status (map_of (jobs (fst (process_job E d i))) i) = Some st
          \<and> (\<forall>k. k \<noteq> i \<longrightarrow>
                 map_of (jobs (fst (process_job E d i))) k = map_of (jobs d) k)"
proof -
  have quiet: "status_writes k (snd (run_scrape E j)) = []" for k
    by (simp add: run_scrape_def status_writes_scrape_url)
  show ?thesis
  proof (cases "fst (run_scrape E j)")
    case (Inl msg)
    then show ?thesis
      using found by (simp add: process_job_found quiet set_status_lookup)
  next
    case (Inr rs)
    then show ?thesis
      using found
      by (cases "rs = []") (simp_all add: process_job_found quiet set_status_lookup)
  qed
qed

lemma inv_boot: "lifecycle_inv d0 (boot d0)"
  by (auto simp: lifecycle_inv_def boot_def job_stage_def has_key_map_of)

lemma map_of_snoc:
  "map_of xs k = None \<Longrightarrow> map_of (xs @ [(k, v)]) x = (if x = k then Some v else map_of xs x)"
  by (induction xs) auto

lemma lifecycle_invI:
  assumes "distinct (sys_queue S)"
      and "\<And>i. has_key i (jobs d0) \<Longrightarrow>
            i \<notin> set (sys_queue S)
            \<and> status_writes i (sys_events S) = []
            \<and> map_of (jobs (sys_db S)) i = map_of (jobs d0) i"
      and "\<And>i. i \<in> set (sys_queue S) \<Longrightarrow>
            status_writes i (sys_events S) = []
            \<and> map_option job_status (map_of (jobs (sys_db S)) i) = Some ''queued''"
      and "\<And>i. \<not> has_key i (jobs d0) \<Longrightarrow>
            job_stage (status_writes i (sys_events S)) (map_of (jobs (sys_db S)) i)"
      and "\<And>i. \<not> has_key i (jobs d0) \<Longrightarrow> i \<notin> set (sys_queue S) \<Longrightarrow>
            map_option job_status (map_of (jobs (sys_db S)) i) \<noteq> Some ''queued''"
  shows "lifecycle_inv d0 S"
  unfolding lifecycle_inv_def using assms by blast

lemma lifecycle_invD:
  assumes "lifecycle_inv d0 S"
  shows "distinct (sys_queue S)"
    and "has_key i (jobs d0) \<Longrightarrow> i \<notin> set (sys_queue S)"
    and "has_key i (jobs d0) \<Longrightarrow> status_writes i (sys_events S) = []"
    and "has_key i (jobs d0) \<Longrightarrow> map_of (jobs (sys_db S)) i = map_of (jobs d0) i"
    and "i \<in> set (sys_queue S) \<Longrightarrow> status_writes i (sys_events S) = []"
    and "i \<in> set (sys_queue S) \<Longrightarrow>
           map_option job_status (map_of (jobs (sys_db S)) i) = Some ''queued''"
    and "\<not> has_key i (jobs d0) \<Longrightarrow>
           job_stage (status_writes i (sys_events S)) (map_of (jobs (sys_db S)) i)"
    and "\<not> has_key i (jobs d0) \<Longrightarrow> i \<notin> set (sys_queue S) \<Longrightarrow>
           map_option job_status (map_of (jobs (sys_db S)) i) \<noteq> Some ''queued''"
  using assms unfolding lifecycle_inv_def by blast+

lemma inv_submit:
  assumes inv: "lifecycle_inv d0 S"
  shows "lifecycle_inv d0 (create_scrape_job E job_id req S)"
proof (cases "req_url req = [] \<or> url_scheme E (req_url req) = [] \<or> url_netloc E (req_url req) = []
              \<or> has_key job_id (jobs (sys_db S))")
  case True
  then have "create_scrape_job E job_id req S = S"
    by (auto simp: create_scrape_job_def)
  then show ?thesis using inv by simp
next
  case False
  then have fresh: "map_of (jobs (sys_db S)) job_id = None"
    by (simp add: has_key_map_of)
  define row where "row =
     \<lparr>job_url = req_url req, job_mode = req_mode req,
      job_crawl_depth = req_crawl_depth req, job_max_pages = req_max_pages req,
      job_selectors = (case req_selectors req of
                         Some ss \<Rightarrow> if ss \<noteq> [] then Some ss else None | None \<Rightarrow> None),
      job_status = ''queued'', job_error_message = None\<rparr>"
  define S' where "S' = create_scrape_job E job_id req S"
  have S': "S' = S\<lparr>sys_db := (sys_db S)\<lparr>jobs := jobs (sys_db S) @ [(job_id, row)]\<rparr>,
                  sys_queue := sys_queue S @ [job_id]\<rparr>"
    using False by (simp add: S'_def create_scrape_job_def row_def)
  have ev: "sys_events S' = sys_events S"
    and qu: "sys_queue S' = sys_queue S @ [job_id]"
    by (simp_all add: S')
  have jb: "jobs (sys_db S') = jobs (sys_db S) @ [(job_id, row)]"
    by (simp add: S')
  have look: "map_of (jobs (sys_db S')) x
              = (if x = job_id then Some row else map_of (jobs (sys_db S)) x)" for x
    unfolding jb by (rule map_of_snoc[OF fresh])
  have st: "job_status row = ''queued''" by (simp add: row_def)
  have notq: "job_id \<notin> set (sys_queue S)"
    using lifecycle_invD(6)[OF inv, of job_id] fresh by auto
  have not0: "\<not> has_key job_id (jobs d0)"
  proof
    assume h: "has_key job_id (jobs d0)"
    from lifecycle_invD(4)[OF inv h] fresh have "map_of (jobs d0) job_id = None" by simp
    with h show False by (simp add: has_key_map_of)
  qed
  have untouched: "status_writes job_id (sys_events S) = []"
    using lifecycle_invD(7)[OF inv not0] fresh by (auto simp: job_stage_def)
  have "lifecycle_inv d0 S'"
  proof (rule lifecycle_invI)
    show "distinct (sys_queue S')"
      using lifecycle_invD(1)[OF inv] notq by (simp add: qu)
  next
    fix k assume k: "has_key k (jobs d0)"
    then have "k \<noteq> job_id" using not0 by auto
    then show "k \<notin> set (sys_queue S')
        \<and> status_writes k (sys_events S') = []
        \<and> map_of (jobs (sys_db S')) k = map_of (jobs d0) k"
      using lifecycle_invD(2,3,4)[OF inv k] by (simp add: ev qu look)
  next
    fix k assume k: "k \<in> set (sys_queue S')"
    show "status_writes k (sys_events S') = []
        \<and> map_option job_status (map_of (jobs (sys_db S')) k) = Some ''queued''"
    proof (cases "k = job_id")
      case True
      then show ?thesis using untouched st by (simp add: ev look)
    next
      case False
      then have "k \<in> set (sys_queue S)" using k by (simp add: qu)
      then show ?thesis using lifecycle_invD(5,6)[OF inv] False by (simp add: ev look)
    qed
  next
    fix k assume k: "\<not> has_key k (jobs d0)"
    show "job_stage (status_writes k (sys_events S')) (map_of (jobs (sys_db S')) k)"
    proof (cases "k = job_id")
      case True
      then show ?thesis using untouched st by (simp add: ev look job_stage_def)
    next
      case False
      then show ?thesis using lifecycle_invD(7)[OF inv k] by (simp add: ev look)
    qed
  next
    fix k assume k: "\<not> has_key k (jobs d0)" and nq: "k \<notin> set (sys_queue S')"
    then have "k \<noteq> job_id" "k \<notin> set (sys_queue S)" by (auto simp: qu)
    then show "map_option job_status (map_of (jobs (sys_db S')) k) \<noteq> Some ''queued''"
      using lifecycle_invD(8)[OF inv k] by (simp add: look)
  qed
  then show ?thesis by (simp add: S'_def)
qed

lemma inv_turn:
  assumes inv: "lifecycle_inv d0 S"
  shows "lifecycle_inv d0 (worker_turn E S)"
proof (cases "sys_queue S")
  case Nil
  then show ?thesis using inv by (simp add: worker_turn_def)
next
  case (Cons i rest)
  have q: "i \<notin> set rest" "distinct rest"
    using lifecycle_invD(1)[OF inv] Cons by auto
  have iq: "i \<in> set (sys_queue S)" using Cons by simp
  have there: "map_option job_status (map_of (jobs (sys_db S)) i) = Some ''queued''"
    and untouched: "status_writes i (sys_events S) = []"
    using lifecycle_invD(5,6)[OF inv iq] by auto
  then obtain j where j: "map_of (jobs (sys_db S)) i = Some j"
    by (cases "map_of (jobs (sys_db S)) i") auto
  have not0: "\<not> has_key i (jobs d0)"
    using lifecycle_invD(2)[OF inv, of i] iq by auto
  obtain st where st: "st = ''completed'' \<or> st = ''failed''"
    and w: "\<And>k. status_writes k (snd (process_job E (sys_db S) i))
                  = (if k = i then [''running'', st] else [])"
    and r: "map_option job_status (map_of (jobs (fst (process_job E (sys_db S) i))) i) = Some st"
    and o: "\<And>k. k \<noteq> i \<Longrightarrow>
               map_of (jobs (fst (process_job E (sys_db S) i))) k = map_of (jobs (sys_db S)) k"
    using process_job_effect[OF j, of E] by blast
  define S' where "S' = worker_turn E S"
  have S': "S' = S\<lparr>sys_db := fst (process_job E (sys_db S) i), sys_queue := rest,
                  sys_events := sys_events S @ snd (process_job E (sys_db S) i)\<rparr>"
    by (simp add: S'_def worker_turn_def Cons case_prod_unfold Let_def)
  have ev: "status_writes k (sys_events S')
            = status_writes k (sys_events S) @ (if k = i then [''running'', st] else [])" for k
    by (simp add: S' w)
  have qu: "sys_queue S' = rest" by (simp add: S')
  have same: "k \<noteq> i \<Longrightarrow> map_of (jobs (sys_db S')) k = map_of (jobs (sys_db S)) k" for k
    by (simp add: S' o)
  have mine: "map_option job_status (map_of (jobs (sys_db S')) i) = Some st"
    by (simp add: S' r)
  have "lifecycle_inv d0 S'"
  proof (rule lifecycle_invI)
    show "distinct (sys_queue S')" using q by (simp add: qu)
  next
    fix k assume k: "has_key k (jobs d0)"
    then have ki: "k \<noteq> i" using not0 by auto
    have "k \<notin> set rest" using lifecycle_invD(2)[OF inv k] Cons by simp
    then show "k \<notin> set (sys_queue S')
       \<and> status_writes k (sys_events S') = []
       \<and> map_of (jobs (sys_db S')) k = map_of (jobs d0) k"
      using lifecycle_invD(3,4)[OF inv k] ki by (simp add: ev qu same)
  next
    fix k assume k: "k \<in> set (sys_queue S')"
    then have kr: "k \<in> set rest" by (simp add: qu)
    then have ki: "k \<noteq> i" using q by auto
    have kq: "k \<in> set (sys_queue S)" using kr Cons by simp
    show "status_writes k (sys_events S') = []
       \<and> map_option job_status (map_of (jobs (sys_db S')) k) = Some ''queued''"
      using lifecycle_invD(5,6)[OF inv kq] ki by (simp add: ev same)
  next
    fix k assume k0: "\<not> has_key k (jobs d0)"
    show "job_stage (status_writes k (sys_events S')) (map_of (jobs (sys_db S')) k)"
    proof (cases "k = i")
      case True
      have "status_writes i (sys_events S') = [''running'', st]"
        by (simp add: ev untouched)
      then show ?thesis
        using st mine unfolding True job_stage_def by auto
    next
      case False
      then show ?thesis using lifecycle_invD(7)[OF inv k0] by (simp add: ev same)
    qed
  next
    fix k assume k0: "\<not> has_key k (jobs d0)" and nq: "k \<notin> set (sys_queue S')"
    show "map_option job_status (map_of (jobs (sys_db S')) k) \<noteq> Some ''queued''"
    proof (cases "k = i")
      case True
      then show ?thesis using st mine by auto
    next
      case False
      then have "k \<notin> set (sys_queue S)" using nq Cons by (simp add: qu)
      then show ?thesis using lifecycle_invD(8)[OF inv k0] False by (simp add: same)
    qed
  qed
  then show ?thesis by (simp add: S'_def)
qed

lemma inv_run:
  "lifecycle_inv d0 S \<Longrightarrow> lifecycle_inv d0 (run_system E acts S)"
proof (induction acts arbitrary: S)
  case Nil
  then show ?case by (simp add: run_system_def)
next
  case (Cons a acts)
  have "lifecycle_inv d0 (act E a S)"
    using Cons.prems by (cases a) (simp_all add: inv_submit inv_turn)
  then have "lifecycle_inv d0 (run_system E acts (act E a S))"
    by (rule Cons.IH)
  then show ?case by (simp add: run_system_def)
qed

lemma shop_run_scrape:
  "fst (run_scrape site_env (queued_job ''http://shop.test/''))
     = Inr [[(''full_text'', VStr ''front'')], [(''full_text'', VStr ''third'')]]"
  by (simp add: run_scrape_def queued_job_def job_depth_def job_budget_def site_scrape)

lemma shop_system:
  "status_writes ''job2''
     (sys_events (run_system site_env shop_actions (boot (one_job_db ''http://shop.test/''))))
   = [''running'', ''completed'']"
proof -
  let ?q = "queued_job ''http://shop.test/''"
  let ?d1 = "\<lparr>jobs = [(''job1'', ?q), (''job2'', ?q)], results = []\<rparr>"
  let ?S1 = "\<lparr>sys_db = ?d1, sys_queue = [''job2''], sys_events = []\<rparr>"
  have url: "url_scheme site_env ''http://shop.test/'' = ''http''"
    "url_netloc site_env ''http://shop.test/'' = ''shop.test''"
    by (simp_all add: site_env_def stub_env_def http_netloc_def)
  have 1: "create_scrape_job site_env ''job2'' shop_request (boot (one_job_db ''http://shop.test/''))
           = ?S1"
    by (simp add: create_scrape_job_def shop_request_def boot_def one_job_db_def url has_key_def
          queued_job_def)
  have found: "map_of (jobs ?d1) ''job2'' = Some ?q" by simp
  have quiet: "status_writes k (snd (run_scrape site_env ?q)) = []" for k
    by (simp add: run_scrape_def status_writes_scrape_url)
  define S2 where "S2 = worker_turn site_env ?S1"
  have q2: "sys_queue S2 = []"
    by (simp add: S2_def worker_turn_def case_prod_unfold Let_def)
  have k2: "has_key ''job2'' (jobs (sys_db S2))"
    unfolding S2_def worker_turn_def
    by (simp add: case_prod_unfold Let_def process_job_found[OF found] shop_run_scrape
          has_key_map_of set_status_lookup)
  have e2: "status_writes ''job2'' (sys_events S2) = [''running'', ''completed'']"
    unfolding S2_def worker_turn_def
    by (simp add: case_prod_unfold Let_def process_job_found[OF found] shop_run_scrape quiet)
  have 3: "create_scrape_job site_env ''job2'' shop_request S2 = S2"
    using k2 by (simp add: create_scrape_job_def)
  have 4: "worker_turn site_env S2 = S2"
    using q2 by (simp add: worker_turn_def)
  have "run_system site_env shop_actions (boot (one_job_db ''http://shop.test/'')) = S2"
    by (simp add: run_system_def shop_actions_def 1 3 4 S2_def[symmetric])
  then show ?thesis using e2 by simp
qed

section \<open>Pagination discovery stays on the host\<close>

lemma link_okI:
  "href \<noteq> [] \<Longrightarrow> same_netloc E (urljoin E current_url href) current_url \<Longrightarrow>
   link_ok E current_url (urljoin E current_url href)"
  unfolding link_ok_def same_netloc_def url_hostname_def by auto

lemma collect_links_ok:
  "\<forall>u \<in> set acc. link_ok E current_url u \<Longrightarrow>
   \<forall>u \<in> set (collect_links E current_url links acc). link_ok E current_url u"
proof (induction links arbitrary: acc)
  case Nil
  then show ?case by (simp add: collect_links_def)
next
  case (Cons link links)
  let ?acc' = "case bs_get E link ''href'' of
                 Some href \<Rightarrow>
                   if href \<noteq> [] then
                     (let full_url = urljoin E current_url href in
                      if same_netloc E full_url current_url then acc @ [full_url] else acc)
                   else acc
               | None \<Rightarrow> acc"
  have step: "collect_links E current_url (link # links) acc
              = collect_links E current_url links ?acc'"
    by (simp add: collect_links_def)
  have "\<forall>u \<in> set ?acc'. link_ok E current_url u"
    using Cons.prems by (auto simp: Let_def link_okI split: option.splits)
  then show ?case
    unfolding step by (rule Cons.IH)
qed

lemma pagination_scan_ok:
  "\<forall>u \<in> set acc. link_ok E current_url u \<Longrightarrow>
   \<forall>u \<in> set (pagination_scan E soup current_url selectors acc). link_ok E current_url u"
proof (induction E soup current_url selectors acc rule: pagination_scan.induct)
  case (1 E soup current_url pagination_links)
  then show ?case by simp
next
  case (2 E soup current_url selector rest pagination_links)
  let ?elements = "bs_select E soup selector"
  let ?acc' = "collect_links E current_url (pagination_anchors E ?elements) pagination_links"
  have acc': "\<forall>u \<in> set ?acc'. link_ok E current_url u"
    using "2.prems" by (rule collect_links_ok)
  show ?case
  proof (cases "?elements \<noteq> []")
    case True
    show ?thesis
    proof (cases "?acc' \<noteq> []")
      case True
      then show ?thesis using \<open>?elements \<noteq> []\<close> acc' by (simp add: Let_def)
    next
      case False
      have "\<forall>u \<in> set (pagination_scan E soup current_url rest ?acc'). link_ok E current_url u"
        using "2.IH"(1)[OF refl \<open>?elements \<noteq> []\<close> refl refl] False acc' by simp
      then show ?thesis using \<open>?elements \<noteq> []\<close> False by (simp add: Let_def)
    qed
  next
    case False
    have "\<forall>u \<in> set (pagination_scan E soup current_url rest pagination_links).
            link_ok E current_url u"
      using "2.IH"(2)[OF refl] False "2.prems" by simp
    then show ?thesis using False by (simp add: Let_def)
  qed
qed

lemma next_scan_ok:
  "\<forall>u \<in> set (next_scan E soup current_url patterns). link_ok E current_url u"
  by (induction E soup current_url patterns rule: next_scan.induct)
     (auto simp: Let_def link_okI split: option.splits)

text \<open>
  C5: every URL that \<^verbatim>\<open>find_pagination_links\<close> returns is the URL of the page joined
  with a non-empty \<^verbatim>\<open>href\<close>, and has the network location, hence the host name, of
  the URL of the page; at most five are returned. So every URL that an iteration of
  the crawl adds to \<^verbatim>\<open>urls_to_visit\<close> has the network location of the page on which it
  was discovered.
\<close>

theorem find_pagination_links_same_host:
  "(\<forall>u \<in> set (find_pagination_links E soup current_url).
      url_netloc E u = url_netloc E current_url
      \<and> url_hostname E u = url_hostname E current_url
      \<and> (\<exists>href. href \<noteq> [] \<and> u = urljoin E current_url href))
   \<and> length (find_pagination_links E soup current_url) \<le> 5
   \<and> (\<forall>s cur rest. urls_to_visit s = cur # rest \<longrightarrow>
        (\<forall>u \<in> set (urls_to_visit (crawl_step E mode sels max_pages s)).
           u \<in> set rest \<or> url_netloc E u = url_netloc E cur))"
proof -
  have ok: "\<forall>u \<in> set (find_pagination_links E soup current_url). link_ok E current_url u"
    for soup current_url
  proof -
    have a: "\<forall>u \<in> set (pagination_scan E soup current_url pagination_selectors []).
               link_ok E current_url u"
      by (rule pagination_scan_ok) simp
    have b: "\<forall>u \<in> set (next_scan E soup current_url next_patterns). link_ok E current_url u"
      by (rule next_scan_ok)
    show ?thesis
      unfolding find_pagination_links_def Let_def
      using a b by (auto dest: in_set_takeD)
  qed
  have len: "length (find_pagination_links E soup current_url) \<le> 5"
    unfolding find_pagination_links_def Let_def by simp
  have frontier: "u \<in> set rest \<or> url_netloc E u = url_netloc E cur"
    if s: "urls_to_visit s = cur # rest"
      and u: "u \<in> set (urls_to_visit (crawl_step E mode sels max_pages s))" for s cur rest u
  proof -
    from crawl_step_urls[OF s u]
    show ?thesis using ok by (auto simp: link_ok_def)
  qed
  show ?thesis
    using ok len frontier unfolding link_ok_def by blast
qed

theorem find_pagination_links_same_host_witness:
  "find_pagination_links site_env front_page ''http://shop.test/''
     = [''http://shop.test/page2'', ''http://shop.test/page3'']
   \<and> url_netloc site_env ''http://shop.test/page2'' = url_netloc site_env ''http://shop.test/''
   \<and> url_netloc site_env ''http://shop.test/page3'' = url_netloc site_env ''http://shop.test/''
   \<and> url_netloc site_env ''http://other.test/x'' = ''other.test''
   \<and> length (find_pagination_links site_env front_page ''http://shop.test/'') \<le> 5"
proof -
  have other: "url_netloc site_env ''http://other.test/x'' = ''other.test''"
    by (simp add: site_env_def stub_env_def http_netloc_def)
  show ?thesis
    using find_pagination_links_same_host [of site_env front_page "''http://shop.test/''"]
      front_links other
    by simp
qed


section \<open>Table extraction: which rows become records\<close>

lemma fold_collect2:
  "fold (\<lambda>x acc. if A x then (if B x then acc @ [f x] else acc) else acc) xs init
     = init @ map f (filter (\<lambda>x. A x \<and> B x) xs)"
  by (induction xs arbitrary: init) simp_all

lemma update_fresh: "k \<notin> fst ` set al \<Longrightarrow> AList.update k v al = al @ [(k, v)]"
  by (induction al) auto

lemma fold_enumerate_update:
  "distinct hs \<Longrightarrow> set hs \<inter> fst ` set acc = {} \<Longrightarrow> n + length hs \<le> length cells \<Longrightarrow>
   fold (\<lambda>(i, h) d. if i < length cells then AList.update h (f (cells ! i)) d else d)
        (enumerate n hs) acc
     = acc @ zip hs (map f (drop n cells))"
proof (induction hs arbitrary: n acc)
  case Nil
  then show ?case by simp
next
  case (Cons h hs)
  have n: "n < length cells" using Cons.prems by simp
  have fresh: "h \<notin> fst ` set acc" using Cons.prems by auto
  have d: "drop n cells = cells ! n # drop (Suc n) cells"
    using n by (simp add: Cons_nth_drop_Suc)
  have "set hs \<inter> fst ` set (acc @ [(h, f (cells ! n))]) = {}"
    using Cons.prems by auto
  with Cons.prems
  have "fold (\<lambda>(i, h) d. if i < length cells then AList.update h (f (cells ! i)) d else d)
          (enumerate (Suc n) hs) (acc @ [(h, f (cells ! n))])
        = (acc @ [(h, f (cells ! n))]) @ zip hs (map f (drop (Suc n) cells))"
    by (intro Cons.IH) auto
  then show ?case
    by (simp add: n update_fresh[OF fresh] d)
qed

lemma row_data_of_zip:
  assumes "distinct headers" and "length cells = length headers"
  shows "row_data_of E headers cells = zip headers (map (\<lambda>c. VStr (bs_text_strip E c)) cells)"
  unfolding row_data_of_def
  using fold_enumerate_update[of headers "[]" 0 cells "\<lambda>c. VStr (bs_text_strip E c)"] assms
  by simp

text \<open>
  When the header texts are distinct, a row of \<^const>\<open>table_rows\<close> becomes a record
  exactly when it has as many cells as there are headers and one of its cells has a
  text, and the record pairs the headers with the texts of the cells.
\<close>

lemma extract_table_data_rows:
  assumes d: "distinct (table_headers E table)"
  shows "extract_table_data E table =
           map (\<lambda>row. zip (table_headers E table)
                          (map (\<lambda>c. VStr (bs_text_strip E c)) (bs_find_all E row [''td'', ''th''] [])))
               (filter (\<lambda>row. length (bs_find_all E row [''td'', ''th''] [])
                                 = length (table_headers E table)
                              \<and> (\<exists>c \<in> set (bs_find_all E row [''td'', ''th''] []).
                                    bs_text_strip E c \<noteq> []))
                       (table_rows E table))"
proof -
  let ?hs = "table_headers E table"
  let ?cells = "\<lambda>row. bs_find_all E row [''td'', ''th''] []"
  let ?A = "\<lambda>row. length (?cells row) = length ?hs"
  let ?B = "\<lambda>row. row_data_of E ?hs (?cells row) \<noteq> []
                    \<and> list_ex truthy (map snd (row_data_of E ?hs (?cells row)))"
  have run: "extract_table_data E table =
          (if ?hs = [] then []
           else map (\<lambda>row. row_data_of E ?hs (?cells row))
                  (filter (\<lambda>row. ?A row \<and> ?B row) (table_rows E table)))"
    unfolding extract_table_data_def Let_def
    using fold_collect2[of ?A ?B "\<lambda>row. row_data_of E ?hs (?cells row)" "table_rows E table" "[]"]
    by simp
  have B: "?B row \<longleftrightarrow> (\<exists>c \<in> set (?cells row). bs_text_strip E c \<noteq> [])" if "?A row" for row
  proof -
    have z: "row_data_of E ?hs (?cells row)
             = zip ?hs (map (\<lambda>c. VStr (bs_text_strip E c)) (?cells row))"
      by (rule row_data_of_zip[OF d that])
    have s: "map snd (row_data_of E ?hs (?cells row))
             = map (\<lambda>c. VStr (bs_text_strip E c)) (?cells row)"
      unfolding z using that by (simp add: map_snd_zip)
    have e: "list_ex truthy (map (\<lambda>c. VStr (bs_text_strip E c)) (?cells row))
             \<longleftrightarrow> (\<exists>c \<in> set (?cells row). bs_text_strip E c \<noteq> [])"
      by (simp add: list_ex_iff)
    have n: "map snd (row_data_of E ?hs (?cells row)) \<noteq> []
             \<Longrightarrow> row_data_of E ?hs (?cells row) \<noteq> []"
      by auto
    show ?thesis
      unfolding s e using n s by (cases "?cells row") auto
  qed
  have f: "filter (\<lambda>row. ?A row \<and> ?B row) (table_rows E table)
         = filter (\<lambda>row. ?A row \<and> (\<exists>c \<in> set (?cells row). bs_text_strip E c \<noteq> []))
             (table_rows E table)"
  proof (rule filter_cong[OF refl])
    fix row
    show "(?A row \<and> ?B row)
          = (?A row \<and> (\<exists>c \<in> set (?cells row). bs_text_strip E c \<noteq> []))"
      using B[of row] by blast
  qed
  have m: "map (\<lambda>row. row_data_of E ?hs (?cells row))
             (filter (\<lambda>row. ?A row \<and> (\<exists>c \<in> set (?cells row). bs_text_strip E c \<noteq> []))
                (table_rows E table))
         = map (\<lambda>row. zip ?hs (map (\<lambda>c. VStr (bs_text_strip E c)) (?cells row)))
             (filter (\<lambda>row. ?A row \<and> (\<exists>c \<in> set (?cells row). bs_text_strip E c \<noteq> []))
                (table_rows E table))"
    by (rule map_cong) (auto simp: row_data_of_zip[OF d])
  show ?thesis
  proof (cases "?hs = []")
    case True
    then show ?thesis unfolding run by (auto simp: filter_empty_conv)
  next
    case False
    then show ?thesis unfolding run f m by simp
  qed
qed

text \<open>
  With a \<^verbatim>\<open>thead\<close> and a \<^verbatim>\<open>tbody\<close> the header row is not among the rows, and the two
  data rows give two records.
\<close>

lemma extract_table_data_sectioned_table:
  "extract_table_data offline_env sectioned_table =
     [[(''Name'', VStr ''Pen''), (''Price'', VStr ''2'')],
      [(''Name'', VStr ''Ink''), (''Price'', VStr ''5'')]]"
  by (simp add: extract_table_data_def table_headers_def table_rows_def row_data_of_def
        bs_find_def offline_env_def stub_env_def lookup_def sectioned_table_def row_of_def leaf_def
        enumerate_eq_zip)

text \<open>
  C6 (the code at the failing input): on a table whose header row
  \<^verbatim>\<open>["Name", "Price"]\<close> is its first \<^verbatim>\<open>tr\<close>, with no \<^verbatim>\<open>thead\<close> and no \<^verbatim>\<open>tbody\<close>,
  followed by two well-formed data rows, \<^verbatim>\<open>extract_table_data\<close> returns three
  records, not two: the rows are all the \<^verbatim>\<open>tr\<close> of the table, the header row is one
  of them, it has as many cells as there are headers, and it becomes the record that
  maps each header to itself.
\<close>

theorem extract_table_data_plain_table:
  "extract_table_data offline_env plain_table =
     [[(''Name'', VStr ''Name''), (''Price'', VStr ''Price'')],
      [(''Name'', VStr ''Pen''), (''Price'', VStr ''2'')],
      [(''Name'', VStr ''Ink''), (''Price'', VStr ''5'')]]"
  by (simp add: extract_table_data_def table_headers_def table_rows_def row_data_of_def
        bs_find_def offline_env_def stub_env_def lookup_def plain_table_def row_of_def leaf_def
        enumerate_eq_zip)

lemma container_record_empty_iff:
  "container_record E sels c = [] \<longleftrightarrow>
     \<not> (\<exists>(key, selector) \<in> set sels. key \<noteq> ''container'' \<and> bs_select E c selector \<noteq> [])"
  unfolding container_record_collect collect_fields_empty_iff
  by (fastforce simp: container_field_def bs_select_one_def split: list.splits)

text \<open>
  C7 (amended): with a \<^verbatim>\<open>container\<close> key, the output holds one record for each
  element matched by the container selector within which at least one of the other
  selectors matches, in the order of the matches; an element within which none matches
  gives no record, so there are at most as many records as matched elements. The
  fields of a record are the keys other than \<^verbatim>\<open>container\<close> whose selector matches
  within the element, each with the stripped text of the first match.
\<close>

theorem extract_with_selectors_container:
  assumes c: "map_of sels ''container'' = Some container_selector"
      and d: "distinct (map fst sels)"
  shows "extract_with_selectors E soup sels =
           Inr (map (container_record E sels)
                  (filter (\<lambda>c. \<exists>(key, selector) \<in> set sels.
                                  key \<noteq> ''container'' \<and> bs_select E c selector \<noteq> [])
                     (bs_select E soup container_selector)))
       \<and> (\<forall>rs. extract_with_selectors E soup sels = Inr rs
              \<longrightarrow> length rs \<le> length (bs_select E soup container_selector))
       \<and> (\<forall>c key. map_of (container_record E sels c) key =
            (if key = ''container'' then None
             else case map_of sels key of
                    None \<Rightarrow> None
                  | Some selector \<Rightarrow>
                      (case bs_select E c selector of
                         [] \<Rightarrow> None
                       | element # _ \<Rightarrow> Some (VStr (bs_text_strip E element)))))"
proof -
  have run: "extract_with_selectors E soup sels =
           Inr (map (container_record E sels)
                  (filter (\<lambda>c. \<exists>(key, selector) \<in> set sels.
                                  key \<noteq> ''container'' \<and> bs_select E c selector \<noteq> [])
                     (bs_select E soup container_selector)))"
    unfolding extract_with_selectors_def
    by (simp add: c Let_def fold_collect container_record_empty_iff)
  have len: "\<forall>rs. extract_with_selectors E soup sels = Inr rs
              \<longrightarrow> length rs \<le> length (bs_select E soup container_selector)"
    unfolding run by auto
  have fields: "map_of (container_record E sels c) key =
            (if key = ''container'' then None
             else case map_of sels key of
                    None \<Rightarrow> None
                  | Some selector \<Rightarrow>
                      (case bs_select E c selector of
                         [] \<Rightarrow> None
                       | element # _ \<Rightarrow> Some (VStr (bs_text_strip E element))))" for c key
    unfolding container_record_collect map_of_collect_fields[OF d]
    by (auto simp: container_field_def bs_select_one_def c split: option.splits list.splits)
  from run len fields show ?thesis by blast
qed

theorem extract_with_selectors_container_counterexample:
  "length (bs_select offline_env one_bare_item ''.item'') = 1
   \<and> extract_with_selectors offline_env one_bare_item item_selectors = Inr []"
  by (simp add: extract_with_selectors_def container_record_def bs_select_one_def
        offline_env_def stub_env_def lookup_def one_bare_item_def bare_item_def
        item_selectors_def)

theorem extract_with_selectors_container_witness:
  "map_of item_selectors ''container'' = Some ''.item''
   \<and> distinct (map fst item_selectors)
   \<and> extract_with_selectors offline_env three_items item_selectors =
       Inr [[(''title'', VStr ''A''), (''price'', VStr ''1'')],
            [(''title'', VStr ''B''), (''price'', VStr ''2'')],
            [(''title'', VStr ''C''), (''price'', VStr ''3'')]]"
proof -
  have c: "map_of item_selectors ''container'' = Some ''.item''"
    by (simp add: item_selectors_def)
  have d: "distinct (map fst item_selectors)"
    by (simp add: item_selectors_def)
  show ?thesis
    using c d extract_with_selectors_container [OF c d, of offline_env three_items]
    by (simp add: container_record_def bs_select_one_def offline_env_def stub_env_def
          lookup_def three_items_def item_def leaf_def item_selectors_def)
qed

lemma zip_record_empty_iff:
  "zip_record E soup sels i = [] \<longleftrightarrow>
     \<not> (\<exists>(key, selector) \<in> set sels. i < length (bs_select E soup selector))"
  unfolding zip_record_collect collect_fields_empty_iff
  by (auto simp: zip_field_def Let_def)

lemma single_record_empty_iff:
  "single_record E soup sels = [] \<longleftrightarrow>
     \<not> (\<exists>(key, selector) \<in> set sels. bs_select E soup selector \<noteq> [])"
  unfolding single_record_collect collect_fields_empty_iff
  by (fastforce simp: single_field_def split: list.splits)

text \<open>
  C8 (amended): without a \<^verbatim>\<open>container\<close> key, if the selector of the first field
  matches more than one element, one record is produced per match of the first field,
  and record \<open>i\<close> takes element \<open>i\<close> of every field whose selector has more than \<open>i\<close>
  matches (the other fields are left out of that record). Otherwise a single record is
  produced if the selector of at least one field matches, and no record if none
  matches; in that record a field whose selector matches once is the text of the
  match, a field whose selector matches more than once is the list of the texts of
  all its matches, and a field whose selector matches nothing is left out.
\<close>

theorem extract_with_selectors_fields:
  assumes c: "map_of sels ''container'' = None"
      and s: "sels = (first_key, first_selector) # rest"
      and d: "distinct (map fst sels)"
  shows "extract_with_selectors E soup sels =
           (if length (bs_select E soup first_selector) > 1
            then Inr (map (zip_record E soup sels)
                        [0 ..< length (bs_select E soup first_selector)])
            else if \<exists>(key, selector) \<in> set sels. bs_select E soup selector \<noteq> []
            then Inr [single_record E soup sels]
            else Inr [])
       \<and> (\<forall>i key. map_of (zip_record E soup sels i) key =
            (case map_of sels key of
               None \<Rightarrow> None
             | Some selector \<Rightarrow>
                 if i < length (bs_select E soup selector)
                 then Some (VStr (bs_text_strip E (bs_select E soup selector ! i)))
                 else None))
       \<and> (\<forall>key. map_of (single_record E soup sels) key =
            (case map_of sels key of
               None \<Rightarrow> None
             | Some selector \<Rightarrow>
                 (case bs_select E soup selector of
                    [] \<Rightarrow> None
                  | [element] \<Rightarrow> Some (VStr (bs_text_strip E element))
                  | elements \<Rightarrow> Some (VList (map (bs_text_strip E) elements)))))"
proof -
  have all: "filter (\<lambda>i. zip_record E soup sels i \<noteq> [])
               [0 ..< length (bs_select E soup first_selector)]
             = [0 ..< length (bs_select E soup first_selector)]"
    by (rule filter_True) (auto simp: zip_record_empty_iff s)
  have run: "extract_with_selectors E soup sels =
           (if length (bs_select E soup first_selector) > 1
            then Inr (map (zip_record E soup sels)
                        [0 ..< length (bs_select E soup first_selector)])
            else if \<exists>(key, selector) \<in> set sels. bs_select E soup selector \<noteq> []
            then Inr [single_record E soup sels]
            else Inr [])"
  proof -
    have "extract_with_selectors E soup sels =
           (if length (bs_select E soup first_selector) > 1
            then Inr (map (zip_record E soup sels)
                        (filter (\<lambda>i. zip_record E soup sels i \<noteq> [])
                           [0 ..< length (bs_select E soup first_selector)]))
            else if single_record E soup sels \<noteq> []
            then Inr [single_record E soup sels]
            else Inr [])"
      using c unfolding extract_with_selectors_def
      by (simp add: s Let_def fold_collect del: upt_Suc)
    then show ?thesis
      unfolding all single_record_empty_iff by simp
  qed
  have zipf: "map_of (zip_record E soup sels i) key =
            (case map_of sels key of
               None \<Rightarrow> None
             | Some selector \<Rightarrow>
                 if i < length (bs_select E soup selector)
                 then Some (VStr (bs_text_strip E (bs_select E soup selector ! i)))
                 else None)" for i key
    unfolding zip_record_collect map_of_collect_fields[OF d]
    by (auto simp: zip_field_def Let_def split: option.splits)
  have singlef: "map_of (single_record E soup sels) key =
            (case map_of sels key of
               None \<Rightarrow> None
             | Some selector \<Rightarrow>
                 (case bs_select E soup selector of
                    [] \<Rightarrow> None
                  | [element] \<Rightarrow> Some (VStr (bs_text_strip E element))
                  | elements \<Rightarrow> Some (VList (map (bs_text_strip E) elements))))" for key
    unfolding single_record_collect map_of_collect_fields[OF d]
    by (auto simp: single_field_def split: option.splits list.splits)
  from run zipf singlef show ?thesis by blast
qed


theorem extract_with_selectors_fields_counterexample:
  "map_of field_selectors ''container'' = None
   \<and> length (bs_select offline_env empty_page ''h3'') = 0
   \<and> extract_with_selectors offline_env empty_page field_selectors = Inr []"
  by (simp add: extract_with_selectors_def single_record_def
        offline_env_def stub_env_def lookup_def empty_page_def field_selectors_def)

theorem extract_with_selectors_fields_witness:
  "map_of field_selectors ''container'' = None
   \<and> field_selectors = (''title'', ''h3'') # [(''price'', ''.price'')]
   \<and> distinct (map fst field_selectors)
   \<and> extract_with_selectors offline_env three_items field_selectors =
       Inr [[(''title'', VStr ''A''), (''price'', VStr ''1'')],
            [(''title'', VStr ''B''), (''price'', VStr ''2'')],
            [(''title'', VStr ''C''), (''price'', VStr ''3'')]]
   \<and> extract_with_selectors offline_env one_title_two_prices field_selectors =
       Inr [[(''title'', VStr ''A''), (''price'', VList [''1'', ''2''])]]"
proof -
  have c: "map_of field_selectors ''container'' = None"
    by (simp add: field_selectors_def)
  have s: "field_selectors = (''title'', ''h3'') # [(''price'', ''.price'')]"
    by (simp add: field_selectors_def)
  have d: "distinct (map fst field_selectors)"
    by (simp add: field_selectors_def)
  have many: "extract_with_selectors offline_env three_items field_selectors =
       Inr [[(''title'', VStr ''A''), (''price'', VStr ''1'')],
            [(''title'', VStr ''B''), (''price'', VStr ''2'')],
            [(''title'', VStr ''C''), (''price'', VStr ''3'')]]"
    using extract_with_selectors_fields [OF c s d, of offline_env three_items]
    by (simp add: zip_record_def offline_env_def stub_env_def lookup_def three_items_def
          leaf_def field_selectors_def upt_rec)
  have one: "extract_with_selectors offline_env one_title_two_prices field_selectors =
       Inr [[(''title'', VStr ''A''), (''price'', VList [''1'', ''2''])]]"
    using extract_with_selectors_fields [OF c s d, of offline_env one_title_two_prices]
    by (simp add: single_record_def offline_env_def stub_env_def lookup_def
          one_title_two_prices_def leaf_def field_selectors_def)
  from c s d many one show ?thesis by blast
qed

section \<open>Automatic extraction: the chain of heuristics\<close>

lemma extract_general_data_nonempty: "extract_general_data E soup \<noteq> []"
  unfolding extract_general_data_def by (simp add: Let_def)

text \<open>
  C9: in auto mode the result is the records of the tables, then those of the product
  listings, then those of the article listings, then those of the cards, each
  heuristic contributing all it produced whatever the others produced; the record of
  the general fallback is the result exactly when the four together produced nothing.
\<close>

theorem enhanced_auto_extract_chain:
  "enhanced_auto_extract E soup current_url =
     (let structured =
            concat (map (extract_table_data E) (bs_find_all E soup [''table''] []))
            @ extract_product_listings E soup
            @ extract_article_listings E soup
            @ extract_card_data E soup
      in if structured = [] then [extract_general_data E soup] else structured)"
  unfolding enhanced_auto_extract_def table_results_def
  by (simp add: Let_def fold_extend extract_general_data_nonempty)

theorem enhanced_auto_extract_chain_witness:
  "enhanced_auto_extract offline_env books_table_page ''http://shop.test/'' =
     [[(''Name'', VStr ''Pen''), (''Price'', VStr ''2'')],
      [(''Name'', VStr ''Ink''), (''Price'', VStr ''5'')],
      [(''title'', VStr ''A Book''), (''price'', VStr ''51.77''),
       (''link'', VStr ''a-book_1/index.html'')]]
   \<and> enhanced_auto_extract offline_env empty_page ''http://shop.test/'' =
     [[(''full_text'', VStr [])]]"
proof -
  have t: "extract_table_data offline_env sectioned_table =
     [[(''Name'', VStr ''Pen''), (''Price'', VStr ''2'')],
      [(''Name'', VStr ''Ink''), (''Price'', VStr ''5'')]]"
    by (rule extract_table_data_sectioned_table)
  have tabs: "bs_find_all offline_env books_table_page [''table''] [] = [sectioned_table]"
    "bs_find_all offline_env empty_page [''table''] [] = []"
    by (simp_all add: offline_env_def stub_env_def lookup_def books_table_page_def empty_page_def)
  have p: "extract_product_listings offline_env books_table_page =
      [[(''title'', VStr ''A Book''), (''price'', VStr ''51.77''),
        (''link'', VStr ''a-book_1/index.html'')]]"
    by (simp add: extract_product_listings_def books_results_def books_record_def
          bs_select_one_def bs_get_or_empty_def py_or_def opt_value_def
          offline_env_def stub_env_def lookup_def books_table_page_def book_pod_def leaf_def)
  have p0: "extract_product_listings offline_env empty_page = []"
    by (simp add: extract_product_listings_def generic_products_def product_candidates_def
          product_selectors_def
          offline_env_def stub_env_def lookup_def empty_page_def)
  have a: "extract_article_listings offline_env books_table_page = []"
    "extract_article_listings offline_env empty_page = []"
    by (simp_all add: extract_article_listings_def article_selectors_def
          offline_env_def stub_env_def lookup_def books_table_page_def empty_page_def)
  have c: "extract_card_data offline_env books_table_page = []"
    "extract_card_data offline_env empty_page = []"
    by (simp_all add: extract_card_data_def card_selectors_def
          offline_env_def stub_env_def lookup_def books_table_page_def empty_page_def)
  have g: "extract_general_data offline_env empty_page = [(''full_text'', VStr [])]"
    by (simp add: extract_general_data_def bs_find_def
          offline_env_def stub_env_def lookup_def empty_page_def)
  show ?thesis
    using enhanced_auto_extract_chain [of offline_env books_table_page "''http://shop.test/''"]
      enhanced_auto_extract_chain [of offline_env empty_page "''http://shop.test/''"]
    by (simp add: tabs t p p0 a c g)
qed


section \<open>Product listings: the path for books.toscrape.com\<close>

lemma map_of_case_update:
  "map_of (case x of Some e \<Rightarrow> AList.update k (f e) d | None \<Rightarrow> d) key =
     (if key = k then (case x of Some e \<Rightarrow> Some (f e) | None \<Rightarrow> map_of d key)
      else map_of d key)"
  by (simp add: update_conv' split: option.splits)

lemma books_record_rating:
  "map_of (books_record E product) ''rating'' =
     (case bs_select_one E product ''p.star-rating'' of
        None \<Rightarrow> None
      | Some rating_elem \<Rightarrow>
          map_option VStr
            (first_hit (\<lambda>cls. if cls \<in> set [''One'', ''Two'', ''Three'', ''Four'', ''Five'']
                              then Some cls else None)
               (bs_classes E rating_elem)))"
  unfolding books_record_def Let_def
  by (simp add: map_of_case_update split: option.splits)

lemma books_record_availability:
  "map_of (books_record E product) ''availability'' =
     map_option (\<lambda>stock_elem.
                   VStr (str_strip E (str_replace E (bs_text_strip E stock_elem) ''\<newline>'' '' '')))
       (bs_select_one E product ''p.instock.availability'')"
  unfolding books_record_def Let_def
  by (simp add: map_of_case_update split: option.splits)

lemma books_record_image:
  "map_of (books_record E product) ''image'' =
     map_option (\<lambda>img. VStr (case bs_get E img ''src'' of Some v \<Rightarrow> v | None \<Rightarrow> []))
       (bs_select_one E product ''div.image_container img'')"
  unfolding books_record_def Let_def
  by (simp add: map_of_case_update bs_get_or_empty_def split: option.splits)

lemma books_record_link:
  "map_of (books_record E product) ''link'' =
     map_option (\<lambda>link. VStr (case bs_get E link ''href'' of Some v \<Rightarrow> v | None \<Rightarrow> []))
       (bs_select_one E product ''h3 a'')"
  unfolding books_record_def Let_def
  by (simp add: map_of_case_update bs_get_or_empty_def split: option.splits)

lemma fold_collect1:
  "fold (\<lambda>x acc. if f x \<noteq> [] then acc @ [f x] else acc) xs init
     = init @ filter (\<lambda>r. r \<noteq> []) (map f xs)"
  by (induction xs arbitrary: init) simp_all

lemma books_results_eq:
  "books_results E soup =
     filter (\<lambda>r. r \<noteq> []) (map (books_record E) (bs_select E soup ''article.product_pod''))"
  unfolding books_results_def by (simp add: Let_def fold_collect1)

lemma books_record_other:
  "key \<notin> {''title'', ''price'', ''rating'', ''availability'', ''image'', ''link''}
   \<Longrightarrow> map_of (books_record E product) key = None"
  unfolding books_record_def Let_def
  by (simp add: map_of_case_update split: option.splits)

lemma books_record_title:
  "map_of (books_record E product) ''title'' =
     (case bs_select_one E product ''h3 a'' of
        None \<Rightarrow> None
      | Some title_elem \<Rightarrow>
          Some (VStr (case bs_get E title_elem ''title'' of
                        None \<Rightarrow> bs_text_strip E title_elem
                      | Some t \<Rightarrow> if t \<noteq> [] then t else bs_text_strip E title_elem)))"
  unfolding books_record_def Let_def
  by (simp add: map_of_case_update py_or_def opt_value_def split: option.splits)

lemma books_record_price:
  "map_of (books_record E product) ''price'' =
     map_option (\<lambda>price_elem. VStr (bs_text_strip E price_elem))
       (bs_select_one E product ''p.price_color'')"
  unfolding books_record_def Let_def
  by (simp add: map_of_case_update split: option.splits)

text \<open>
  C10: on a page whose serialized markup contains \<^verbatim>\<open>books.toscrape\<close>, if the
  dedicated path yields a record then \<^verbatim>\<open>extract_product_listings\<close> returns the
  records of that path and nothing of the generic chain. The records of the path are
  those of the \<^verbatim>\<open>article.product_pod\<close> elements that yield a field, in order, and
  the fields of one are read with the selectors of the site: the title from
  \<^verbatim>\<open>h3 a\<close>, the price from \<^verbatim>\<open>p.price_color\<close>, the rating from the classes of
  \<^verbatim>\<open>p.star-rating\<close>, the availability from \<^verbatim>\<open>p.instock.availability\<close>, the
  image from \<^verbatim>\<open>div.image_container img\<close> and the link from \<^verbatim>\<open>h3 a\<close>.
\<close>

theorem extract_product_listings_books:
  assumes site: "is_substr ''books.toscrape'' (bs_str E soup)"
      and some: "books_results E soup \<noteq> []"
  shows "extract_product_listings E soup = books_results E soup
       \<and> books_results E soup =
           filter (\<lambda>r. r \<noteq> [])
             (map (books_record E) (bs_select E soup ''article.product_pod''))
       \<and> (\<forall>product.
            map_of (books_record E product) ''title'' =
              (case bs_select_one E product ''h3 a'' of
                 None \<Rightarrow> None
               | Some title_elem \<Rightarrow>
                   Some (VStr (case bs_get E title_elem ''title'' of
                                 None \<Rightarrow> bs_text_strip E title_elem
                               | Some t \<Rightarrow> if t \<noteq> [] then t
                                           else bs_text_strip E title_elem)))
          \<and> map_of (books_record E product) ''price'' =
              map_option (\<lambda>price_elem. VStr (bs_text_strip E price_elem))
                (bs_select_one E product ''p.price_color'')
          \<and> map_of (books_record E product) ''rating'' =
              (case bs_select_one E product ''p.star-rating'' of
                 None \<Rightarrow> None
               | Some rating_elem \<Rightarrow>
                   map_option VStr
                     (first_hit
                        (\<lambda>cls. if cls \<in> set [''One'', ''Two'', ''Three'', ''Four'', ''Five'']
                               then Some cls else None)
                        (bs_classes E rating_elem)))
          \<and> map_of (books_record E product) ''availability'' =
              map_option
                (\<lambda>stock_elem.
                   VStr (str_strip E
                           (str_replace E (bs_text_strip E stock_elem) ''\<newline>'' '' '')))
                (bs_select_one E product ''p.instock.availability'')
          \<and> map_of (books_record E product) ''image'' =
              map_option (\<lambda>img. VStr (case bs_get E img ''src'' of Some v \<Rightarrow> v | None \<Rightarrow> []))
                (bs_select_one E product ''div.image_container img'')
          \<and> map_of (books_record E product) ''link'' =
              map_option (\<lambda>link. VStr (case bs_get E link ''href'' of Some v \<Rightarrow> v | None \<Rightarrow> []))
                (bs_select_one E product ''h3 a'')
          \<and> fst ` set (books_record E product)
              \<subseteq> {''title'', ''price'', ''rating'', ''availability'', ''image'', ''link''})"
proof -
  have run: "extract_product_listings E soup = books_results E soup"
    unfolding extract_product_listings_def using site some by (simp add: Let_def)
  have keys: "fst ` set (books_record E product)
              \<subseteq> {''title'', ''price'', ''rating'', ''availability'', ''image'', ''link''}"
    for product
  proof
    fix key assume "key \<in> fst ` set (books_record E product)"
    then have "map_of (books_record E product) key \<noteq> None"
      by (simp add: map_of_eq_None_iff)
    then show "key \<in> {''title'', ''price'', ''rating'', ''availability'', ''image'', ''link''}"
    proof (rule contrapos_np)
      assume "key \<notin> {''title'', ''price'', ''rating'', ''availability'', ''image'', ''link''}"
      then show "map_of (books_record E product) key = None"
        by (rule books_record_other)
    qed
  qed
  show ?thesis
    by (intro conjI allI run books_results_eq keys
          books_record_title books_record_price books_record_rating
          books_record_availability books_record_image books_record_link)
qed

theorem extract_product_listings_books_witness:
  "is_substr ''books.toscrape'' (bs_str offline_env books_page)
   \<and> books_results offline_env books_page \<noteq> []
   \<and> extract_product_listings offline_env books_page =
       [[(''title'', VStr ''A Book''), (''price'', VStr ''51.77''),
         (''link'', VStr ''a-book_1/index.html'')]]"
proof -
  have site: "is_substr ''books.toscrape'' (bs_str offline_env books_page)"
    by (simp add: offline_env_def stub_env_def books_page_def)
  have res: "books_results offline_env books_page =
       [[(''title'', VStr ''A Book''), (''price'', VStr ''51.77''),
         (''link'', VStr ''a-book_1/index.html'')]]"
    by (simp add: books_results_def books_record_def
          bs_select_one_def bs_get_or_empty_def py_or_def opt_value_def
          offline_env_def stub_env_def lookup_def books_page_def book_pod_def leaf_def)
  have some: "books_results offline_env books_page \<noteq> []"
    by (simp add: res)
  show ?thesis
    using site some extract_product_listings_books [OF site some] res by simp
qed

section \<open>No URL is requested twice, and the page budget\<close>

text \<open>
  C4: in every state the loop goes through from its initial state, no URL has been
  requested twice, every requested URL is in \<^verbatim>\<open>visited_urls\<close> and was recorded there
  before it was requested, and, for a page budget that is not negative,
  \<^verbatim>\<open>pages_scraped\<close> is at most the budget; the state in which the loop ends is one of
  these states. With a budget of one page the only request is that of the seed URL,
  whatever links its page advertises.
\<close>

theorem crawl_fetches_once_within_budget:
  assumes t0: "fetched t0 = []" and budget: "0 \<le> max_pages"
  shows "(\<forall>n. let s = (crawl_iter E mode sels max_pages ^^ n) (init_state url t0) in
              distinct (fetched (trace s))
            \<and> set (fetched (trace s)) \<subseteq> visited_urls s
            \<and> (\<forall>i u. i < length (trace s) \<and> trace s ! i = HttpGet u
                   \<longrightarrow> Visited u \<in> set (take i (trace s)))
            \<and> pages_scraped s \<le> max_pages)
       \<and> (\<exists>n. crawl E mode sels max_pages (init_state url t0)
                = (crawl_iter E mode sels max_pages ^^ n) (init_state url t0))
       \<and> (max_pages = 1 \<longrightarrow>
             fetched (trace (crawl E mode sels max_pages (init_state url t0))) = [url])
       \<and> (max_pages = 1 \<and> fst (check_robots E url) \<and> fst (is_safe_url E url) \<longrightarrow>
             fetched (snd (scrape_url E url mode sels crawl_depth max_pages)) = [url])"
proof -
  have inv: "trace_ok ((crawl_iter E mode sels max_pages ^^ n) (init_state url t0))" for n
    by (rule trace_ok_iterate) (rule trace_ok_init[OF t0])
  have pages: "pages_scraped ((crawl_iter E mode sels max_pages ^^ n) (init_state url t0))
               \<le> max_pages" for n
    by (rule pages_iterate) (simp add: init_state_def budget)
  have a: "\<forall>n. let s = (crawl_iter E mode sels max_pages ^^ n) (init_state url t0) in
              distinct (fetched (trace s))
            \<and> set (fetched (trace s)) \<subseteq> visited_urls s
            \<and> (\<forall>i u. i < length (trace s) \<and> trace s ! i = HttpGet u
                   \<longrightarrow> Visited u \<in> set (take i (trace s)))
            \<and> pages_scraped s \<le> max_pages"
    using inv pages unfolding trace_ok_def Let_def by blast
  have b: "\<exists>n. crawl E mode sels max_pages (init_state url t0)
                = (crawl_iter E mode sels max_pages ^^ n) (init_state url t0)"
    by (rule crawl_is_iterate)
  have c: "max_pages = 1 \<longrightarrow>
             fetched (trace (crawl E mode sels max_pages (init_state url t0))) = [url]"
    using crawl_budget_one[of E mode sels url t0] t0 by simp
  have d: "max_pages = 1 \<and> fst (check_robots E url) \<and> fst (is_safe_url E url) \<longrightarrow>
             fetched (snd (scrape_url E url mode sels crawl_depth max_pages)) = [url]"
    by (auto simp: scrape_url_open crawl_budget_one)
  from a b c d show ?thesis by blast
qed

theorem crawl_fetches_once_within_budget_witness:
  "fetched [] = []
   \<and> (0::int) \<le> 3
   \<and> fetched (trace (crawl site_env ''auto'' None 3 (init_state ''http://shop.test/'' [])))
       = [''http://shop.test/'', ''http://shop.test/page2'', ''http://shop.test/page3'']
   \<and> distinct (fetched (trace (crawl site_env ''auto'' None 3
                                  (init_state ''http://shop.test/'' []))))
   \<and> pages_scraped (crawl site_env ''auto'' None 3 (init_state ''http://shop.test/'' [])) = 2
   \<and> find_pagination_links site_env front_page ''http://shop.test/''
       = [''http://shop.test/page2'', ''http://shop.test/page3'']
   \<and> fetched (snd (scrape_url site_env ''http://shop.test/'' ''auto'' None 0 1))
       = [''http://shop.test/'']"
proof -
  have t0: "fetched [] = []" by simp
  have b3: "(0::int) \<le> 3" by simp
  have b1: "(0::int) \<le> 1" by simp
  have one: "fetched (snd (scrape_url site_env ''http://shop.test/'' ''auto'' None 0 1))
       = [''http://shop.test/'']"
    using crawl_fetches_once_within_budget [OF t0 b1, of site_env "''auto''" None
        "''http://shop.test/''" 0]
    by (simp add: site_gate)
  obtain n where n: "crawl site_env ''auto'' None 3 (init_state ''http://shop.test/'' [])
      = (crawl_iter site_env ''auto'' None 3 ^^ n) (init_state ''http://shop.test/'' [])"
    using crawl_fetches_once_within_budget [OF t0 b3, of site_env "''auto''" None
        "''http://shop.test/''" 0]
    by blast
  have d: "distinct (fetched (trace (crawl site_env ''auto'' None 3
                                  (init_state ''http://shop.test/'' []))))"
    unfolding n
    using crawl_fetches_once_within_budget [OF t0 b3, of site_env "''auto''" None
        "''http://shop.test/''" 0]
    by (simp add: Let_def)
  show ?thesis
    using t0 b3 one d front_links by (simp add: site_crawl)
qed

section \<open>The address check and the robots request\<close>

text \<open>
  C1 (the code at the failing input): for a job whose seed
  \<^verbatim>\<open>http://127.0.0.1/admin\<close> resolves to the loopback address, the job does end
  \<^verbatim>\<open>failed\<close> with the message of the address check and no page is requested, but the
  denial is not the first thing that happens: \<^verbatim>\<open>scrape_url\<close> calls \<^verbatim>\<open>check_robots\<close>
  before \<^verbatim>\<open>is_safe_url\<close>, so the robots file \<^verbatim>\<open>http://127.0.0.1/robots.txt\<close> of the
  loopback host has been requested by the time the job is denied.
\<close>

theorem process_job_loopback:
  "process_job loopback_env (one_job_db ''http://127.0.0.1/admin'') ''job1'' =
     (\<lparr>jobs = [(''job1'',
                 (queued_job ''http://127.0.0.1/admin'')
                   \<lparr>job_status := ''failed'',
                    job_error_message :=
                      Some ''Scraping failed: URL points to a private or local IP address''\<rparr>)],
       results = []\<rparr>,
      [StatusSet ''job1'' ''running'',
       RobotsRead ''http://127.0.0.1/robots.txt'',
       Resolve ''127.0.0.1'',
       StatusSet ''job1'' ''failed''])"
  by (simp add: process_job_def scrape_url_def check_robots_def is_safe_url_def url_hostname_def
        loopback_env_def stub_env_def http_netloc_def one_job_db_def queued_job_def
        set_status_def job_budget_def job_depth_def)


section \<open>A request that fails\<close>

text \<open>
  C2: when the request of the seed URL fails, \<^verbatim>\<open>scrape_url\<close> requests nothing else
  and returns the empty list, and the job ends \<^verbatim>\<open>failed\<close> (with the reason of an empty
  result); when the request of a URL taken from the frontier fails, the loop goes on
  from the rest of the frontier with the results and the page counter unchanged, the
  URL having been recorded as visited.
\<close>

theorem fetch_error_seed_fatal_later_skipped:
  "(fst (check_robots E url) \<and> fst (is_safe_url E url) \<and> http_get E url = None
      \<longrightarrow> fst (scrape_url E url mode sels crawl_depth max_pages) = Inr []
        \<and> fetched (snd (scrape_url E url mode sels crawl_depth max_pages))
            = (if 0 < max_pages then [url] else []))
   \<and> (map_of (jobs d) job_id = Some j
        \<and> fst (check_robots E (job_url j)) \<and> fst (is_safe_url E (job_url j))
        \<and> http_get E (job_url j) = None
      \<longrightarrow> status_writes job_id (snd (process_job E d job_id)) = [''running'', ''failed'']
        \<and> map_option job_status (map_of (jobs (fst (process_job E d job_id))) job_id)
            = Some ''failed''
        \<and> map_option job_error_message (map_of (jobs (fst (process_job E d job_id))) job_id)
            = Some (Some ''No data extracted''))
   \<and> (urls_to_visit s = u # rest \<and> u \<notin> visited_urls s
        \<and> pages_scraped s < max_pages \<and> http_get E u = None
      \<longrightarrow> crawl E mode sels max_pages s =
            crawl E mode sels max_pages
              (s\<lparr>urls_to_visit := rest, visited_urls := insert u (visited_urls s),
                 trace := trace s @ [Visited u, HttpGet u]\<rparr>))"
proof -
  have seed: "fst (scrape_url E url mode sels crawl_depth max_pages) = Inr []
        \<and> fetched (snd (scrape_url E url mode sels crawl_depth max_pages))
            = (if 0 < max_pages then [url] else [])"
    if "fst (check_robots E url)" "fst (is_safe_url E url)" "http_get E url = None"
    for url mode sels crawl_depth max_pages
    using that by (simp add: scrape_url_open crawl_seed_failed)
  have job: "status_writes job_id (snd (process_job E d job_id)) = [''running'', ''failed'']
        \<and> map_option job_status (map_of (jobs (fst (process_job E d job_id))) job_id)
            = Some ''failed''
        \<and> map_option job_error_message (map_of (jobs (fst (process_job E d job_id))) job_id)
            = Some (Some ''No data extracted'')"
    if found: "map_of (jobs d) job_id = Some j"
      and gate: "fst (check_robots E (job_url j))" "fst (is_safe_url E (job_url j))"
      and fail: "http_get E (job_url j) = None"
  proof -
    have out: "fst (run_scrape E j) = Inr []"
      unfolding run_scrape_def using seed[OF gate fail] by simp
    have quiet: "status_writes job_id (snd (run_scrape E j)) = []"
      by (simp add: run_scrape_def status_writes_scrape_url)
    show ?thesis
      using found by (simp add: process_job_found out quiet set_status_lookup)
  qed
  have later: "crawl E mode sels max_pages s =
            crawl E mode sels max_pages
              (s\<lparr>urls_to_visit := rest, visited_urls := insert u (visited_urls s),
                 trace := trace s @ [Visited u, HttpGet u]\<rparr>)"
    if "urls_to_visit s = u # rest" "u \<notin> visited_urls s"
       "pages_scraped s < max_pages" "http_get E u = None"
    using that by (rule crawl_skip)
  from seed job later show ?thesis by blast
qed


theorem fetch_error_seed_fatal_later_skipped_witness:
  "fst (check_robots site_env ''http://shop.test/page2'')
   \<and> fst (is_safe_url site_env ''http://shop.test/page2'')
   \<and> http_get site_env ''http://shop.test/page2'' = None
   \<and> fst (scrape_url site_env ''http://shop.test/page2'' ''auto'' None 0 3) = Inr []
   \<and> fetched (snd (scrape_url site_env ''http://shop.test/page2'' ''auto'' None 0 3))
       = [''http://shop.test/page2'']
   \<and> map_of (jobs (one_job_db ''http://shop.test/page2'')) ''job1''
       = Some (queued_job ''http://shop.test/page2'')
   \<and> status_writes ''job1''
         (snd (process_job site_env (one_job_db ''http://shop.test/page2'') ''job1''))
       = [''running'', ''failed'']
   \<and> crawl site_env ''auto'' None 3
         \<lparr>all_results = [[(''full_text'', VStr ''front'')]],
          visited_urls = {''http://shop.test/''},
          urls_to_visit = [''http://shop.test/page2'', ''http://shop.test/page3''],
          pages_scraped = 1,
          trace = [Visited ''http://shop.test/'', HttpGet ''http://shop.test/'']\<rparr>
       = crawl site_env ''auto'' None 3
         \<lparr>all_results = [[(''full_text'', VStr ''front'')]],
          visited_urls = {''http://shop.test/page2'', ''http://shop.test/''},
          urls_to_visit = [''http://shop.test/page3''],
          pages_scraped = 1,
          trace = [Visited ''http://shop.test/'', HttpGet ''http://shop.test/'',
                   Visited ''http://shop.test/page2'', HttpGet ''http://shop.test/page2'']\<rparr>
   \<and> fst (scrape_url site_env ''http://shop.test/'' ''auto'' None 0 3)
       = Inr [[(''full_text'', VStr ''front'')], [(''full_text'', VStr ''third'')]]"
proof -
  have g: "http_get site_env ''http://shop.test/page2'' = None"
    by (simp add: site_get)
  have j: "map_of (jobs (one_job_db ''http://shop.test/page2'')) ''job1''
       = Some (queued_job ''http://shop.test/page2'')"
    "job_url (queued_job ''http://shop.test/page2'') = ''http://shop.test/page2''"
    by (simp_all add: one_job_db_def queued_job_def)
  show ?thesis
    using fetch_error_seed_fatal_later_skipped
      [of site_env "''http://shop.test/page2''" "''auto''" None 0 3
          "one_job_db ''http://shop.test/page2''" "''job1''"
          "queued_job ''http://shop.test/page2''"
          "\<lparr>all_results = [[(''full_text'', VStr ''front'')]],
            visited_urls = {''http://shop.test/''},
            urls_to_visit = [''http://shop.test/page2'', ''http://shop.test/page3''],
            pages_scraped = 1,
            trace = [Visited ''http://shop.test/'', HttpGet ''http://shop.test/'']\<rparr>"
          "''http://shop.test/page2''" "[''http://shop.test/page3'']"]
    by (simp add: site_gate_page2 g j site_scrape)
qed


section \<open>The status of a job\<close>

text \<open>
  C3: processing a queued job writes \<^verbatim>\<open>running\<close> and then exactly one of
  \<^verbatim>\<open>completed\<close> and \<^verbatim>\<open>failed\<close>, which is the status the job is left with; it is
  \<^verbatim>\<open>completed\<close> exactly when the crawl returned a non-empty list of records, and an
  empty list leaves the job \<^verbatim>\<open>failed\<close> with the message \<^verbatim>\<open>No data extracted\<close>. In
  the running system, whatever requests arrive and whenever the worker takes its
  turns, a job created since the start is at every moment queued with nothing written
  to it, or has been taken through \<^verbatim>\<open>running\<close> to one final status once and not
  again; the jobs the database held at the start are never touched.
\<close>

theorem job_status_transitions:
  "(map_of (jobs d) job_id = Some j \<and> job_status j = ''queued'' \<longrightarrow>
      (job_status j # status_writes job_id (snd (process_job E d job_id))
         = [''queued'', ''running'', ''completed'']
       \<or> job_status j # status_writes job_id (snd (process_job E d job_id))
         = [''queued'', ''running'', ''failed''])
      \<and> map_option job_status (map_of (jobs (fst (process_job E d job_id))) job_id)
          = Some (last (status_writes job_id (snd (process_job E d job_id))))
      \<and> (last (status_writes job_id (snd (process_job E d job_id))) = ''completed''
           \<longleftrightarrow> (\<exists>rs. fst (run_scrape E j) = Inr rs \<and> rs \<noteq> []))
      \<and> (fst (run_scrape E j) = Inr []
           \<longrightarrow> last (status_writes job_id (snd (process_job E d job_id))) = ''failed''
             \<and> map_option job_error_message
                   (map_of (jobs (fst (process_job E d job_id))) job_id)
                 = Some (Some ''No data extracted'')))
   \<and> (has_key i (jobs d0) \<longrightarrow>
        status_writes i (sys_events (run_system E acts (boot d0))) = []
        \<and> map_of (jobs (sys_db (run_system E acts (boot d0)))) i = map_of (jobs d0) i)
   \<and> (\<not> has_key i (jobs d0) \<longrightarrow>
        job_stage (status_writes i (sys_events (run_system E acts (boot d0))))
          (map_of (jobs (sys_db (run_system E acts (boot d0)))) i))"
proof -
  have inv: "lifecycle_inv d0 (run_system E acts (boot d0))"
    by (rule inv_run) (rule inv_boot)
  show ?thesis
    using process_job_status[of d job_id j E]
      lifecycle_invD(3,4,7)[OF inv, of i]
    by blast
qed


theorem job_status_transitions_witness:
  "map_of (jobs (one_job_db ''http://shop.test/'')) ''job1'' = Some (queued_job ''http://shop.test/'')
   \<and> job_status (queued_job ''http://shop.test/'') = ''queued''
   \<and> status_writes ''job1'' (snd (process_job site_env (one_job_db ''http://shop.test/'') ''job1''))
       = [''running'', ''completed'']
   \<and> map_option job_status
         (map_of (jobs (fst (process_job site_env (one_job_db ''http://shop.test/'') ''job1'')))
            ''job1'')
       = Some ''completed''
   \<and> status_writes ''job1''
         (snd (process_job site_env (one_job_db ''http://shop.test/page2'') ''job1''))
       = [''running'', ''failed'']
   \<and> map_option job_error_message
         (map_of (jobs (fst (process_job site_env (one_job_db ''http://shop.test/page2'') ''job1'')))
            ''job1'')
       = Some (Some ''No data extracted'')
   \<and> has_key ''job1'' (jobs (one_job_db ''http://shop.test/''))
   \<and> status_writes ''job1''
         (sys_events (run_system site_env shop_actions (boot (one_job_db ''http://shop.test/''))))
       = []
   \<and> \<not> has_key ''job2'' (jobs (one_job_db ''http://shop.test/''))
   \<and> status_writes ''job2''
         (sys_events (run_system site_env shop_actions (boot (one_job_db ''http://shop.test/''))))
       = [''running'', ''completed'']
   \<and> map_option job_status
         (map_of (jobs (sys_db (run_system site_env shop_actions
                                  (boot (one_job_db ''http://shop.test/''))))) ''job2'')
       = Some ''completed''"
proof -
  have f1: "map_of (jobs (one_job_db ''http://shop.test/'')) ''job1''
            = Some (queued_job ''http://shop.test/'')"
    and f2: "map_of (jobs (one_job_db ''http://shop.test/page2'')) ''job1''
            = Some (queued_job ''http://shop.test/page2'')"
    by (simp_all add: one_job_db_def)
  have q: "job_status (queued_job url) = ''queued''" for url
    by (simp add: queued_job_def)
  have k1: "has_key ''job1'' (jobs (one_job_db ''http://shop.test/''))"
    and k2: "\<not> has_key ''job2'' (jobs (one_job_db ''http://shop.test/''))"
    by (simp_all add: has_key_def one_job_db_def)
  have r2: "fst (run_scrape site_env (queued_job ''http://shop.test/page2'')) = Inr []"
    by (simp add: run_scrape_def queued_job_def job_depth_def job_budget_def
          scrape_url_open site_gate_page2 crawl_seed_failed site_get)
  note t1 = job_status_transitions
    [where d="one_job_db ''http://shop.test/''" and job_id="''job1''"
       and j="queued_job ''http://shop.test/''" and E=site_env and i="''job1''"
       and ?d0.0="one_job_db ''http://shop.test/''" and acts=shop_actions]
  note t2 = job_status_transitions
    [where d="one_job_db ''http://shop.test/page2''" and job_id="''job1''"
       and j="queued_job ''http://shop.test/page2''" and E=site_env and i="''job2''"
       and ?d0.0="one_job_db ''http://shop.test/''" and acts=shop_actions]
  have a: "status_writes ''job1''
             (snd (process_job site_env (one_job_db ''http://shop.test/'') ''job1''))
           = [''running'', ''completed'']
         \<and> map_option job_status
             (map_of (jobs (fst (process_job site_env (one_job_db ''http://shop.test/'') ''job1'')))
                ''job1'')
           = Some ''completed''"
    using t1 f1 q shop_run_scrape by auto
  have b: "status_writes ''job1''
         (snd (process_job site_env (one_job_db ''http://shop.test/page2'') ''job1''))
       = [''running'', ''failed'']
     \<and> map_option job_error_message
         (map_of (jobs (fst (process_job site_env (one_job_db ''http://shop.test/page2'') ''job1'')))
            ''job1'')
       = Some (Some ''No data extracted'')"
    using t2 f2 q r2 by auto
  have c: "status_writes ''job1''
         (sys_events (run_system site_env shop_actions (boot (one_job_db ''http://shop.test/''))))
       = []"
    using t1 k1 by blast
  have "job_stage
          (status_writes ''job2''
            (sys_events (run_system site_env shop_actions (boot (one_job_db ''http://shop.test/'')))))
          (map_of (jobs (sys_db (run_system site_env shop_actions
                                  (boot (one_job_db ''http://shop.test/''))))) ''job2'')"
    using t2 k2 by blast
  then have d: "map_option job_status
         (map_of (jobs (sys_db (run_system site_env shop_actions
                                  (boot (one_job_db ''http://shop.test/''))))) ''job2'')
       = Some ''completed''"
    by (simp add: shop_system job_stage_def)
  from f1 q a b k1 c k2 shop_system d show ?thesis by blast
qed

end
